theory Spec2Isabelle
  imports Complex_Main "HOL-Library.Char_ord" "HOL-Library.List_Lexorder" "HOL-Library.Multiset"
begin

section \<open>Python values used by tools/tag\_atlas.py\<close>

text \<open>
  The tagger reads and writes JSON documents.  A decoded JSON value is a \<open>json\<close>:
  Python's \<open>None\<close>, \<open>bool\<close>, \<open>int\<close>, \<open>str\<close>, \<open>list\<close> and \<open>dict\<close> (an
  association list in insertion order, looked up with \<open>map_of\<close>).  Floats are left out.
  Strings are \<open>string\<close>, so a character is a code point below 256; they are ordered by
  code point, lists of them lexicographically, as Python orders \<open>str\<close>.
\<close>

datatype json =
    JNull
  | JBool bool
  | JInt int
  | JStr string
  | JArr "json list"
  | JObj "(string \<times> json) list"

datatype py_error = ZeroDivisionError | TypeError | AttributeError | KeyError

text \<open>Truth value of a Python object, as \<open>if x:\<close> and \<open>x and y\<close> test it.\<close>

fun truthy :: "json \<Rightarrow> bool" where
  "truthy JNull = False"
| "truthy (JBool b) = b"
| "truthy (JInt i) = (i \<noteq> 0)"
| "truthy (JStr s) = (s \<noteq> [])"
| "truthy (JArr xs) = (xs \<noteq> [])"
| "truthy (JObj kvs) = (kvs \<noteq> [])"

text \<open>\<open>d.get(k)\<close> on a dict: \<open>None\<close> when the key is missing.\<close>

definition dict_get :: "(string \<times> json) list \<Rightarrow> string \<Rightarrow> json" where
  "dict_get d k = (case map_of d k of None \<Rightarrow> JNull | Some v \<Rightarrow> v)"

text \<open>\<open>x.get(k)\<close> for an optional field of a record: \<open>None\<close> when it is absent.\<close>

definition opt_get :: "json option \<Rightarrow> json" where
  "opt_get f = (case f of None \<Rightarrow> JNull | Some v \<Rightarrow> v)"

subsection \<open>String operations\<close>

definition backslash :: char where
  "backslash = CHR 0x5C"

text \<open>\<open>key.replace("\\", "/")\<close>: every backslash becomes a slash.\<close>

definition norm_slashes :: "string \<Rightarrow> string" where
  "norm_slashes key = map (\<lambda>c. if c = backslash then CHR ''/'' else c) key"

text \<open>\<open>s.split(sep)\<close> for a one-character separator: one more part than separators.\<close>

fun split_char :: "char \<Rightarrow> string \<Rightarrow> string list" where
  "split_char sep [] = [[]]"
| "split_char sep (c # cs) =
     (if c = sep then [] # split_char sep cs
      else (case split_char sep cs of
              [] \<Rightarrow> [[c]]
            | p # ps \<Rightarrow> (c # p) # ps))"

text \<open>\<open>sep.join(parts)\<close>.\<close>

fun join_with :: "string \<Rightarrow> string list \<Rightarrow> string" where
  "join_with sep [] = []"
| "join_with sep [p] = p"
| "join_with sep (p # q # ps) = p @ sep @ join_with sep (q # ps)"

text \<open>\<open>s.startswith(p)\<close>.\<close>

definition startswith :: "string \<Rightarrow> string \<Rightarrow> bool" where
  "startswith s p = (take (length p) s = p)"

section \<open>The catalog\<close>

text \<open>
  One sprite of the index (\<open>data["sprites"][key]\<close>).  The three enrichment fields are
  optional keys of the dict: \<open>None\<close> is a missing key.  \<open>tags\<close>, when present, is a
  list; \<open>description\<close> and \<open>tile_type\<close> hold whatever was stored.  The position fields
  (\<open>row\<close>, \<open>col\<close>, \<open>tiles_x\<close>, \<open>tiles_y\<close>) are only read to crop images and are not
  part of the model.
\<close>

record entity =
  description :: "json option"
  tags :: "json list option"
  tile_type :: "json option"

text \<open>\<open>data["sprites"]\<close>: a dict from key to sprite, in insertion order.\<close>

type_synonym catalog = "(string \<times> entity) list"

text \<open>
  \<open>is_enriched\<close>:
  \<open>bool(info.get("description") and info.get("tags") and info.get("tile_type"))\<close>.
\<close>

definition tags_truthy :: "json list option \<Rightarrow> bool" where
  "tags_truthy t = (case t of None \<Rightarrow> False | Some xs \<Rightarrow> xs \<noteq> [])"

definition is_enriched :: "entity \<Rightarrow> bool" where
  "is_enriched info =
     (truthy (opt_get (description info)) \<and> tags_truthy (tags info)
      \<and> truthy (opt_get (tile_type info)))"

section \<open>Batch planning (process\_atlas)\<close>

text \<open>
  The group of a key in \<open>group_by_prefix\<close>: the first two path segments when there are
  at least three, the first when there are two, \<open>_root\<close> otherwise.
\<close>

definition prefix_of :: "string \<Rightarrow> string" where
  "prefix_of key =
     (let parts = split_char (CHR ''/'') (norm_slashes key) in
      if length parts \<ge> 3 then join_with ''/'' (take 2 parts)
      else if length parts \<ge> 2 then hd parts
      else ''_root'')"

text \<open>\<open>groups[prefix].append(key)\<close> on a \<open>defaultdict(list)\<close>.\<close>

fun group_append :: "(string \<times> string list) list \<Rightarrow> string \<Rightarrow> string \<Rightarrow> (string \<times> string list) list" where
  "group_append [] p key = [(p, [key])]"
| "group_append ((q, ks) # gs) p key =
     (if q = p then (q, ks @ [key]) # gs else (q, ks) # group_append gs p key)"

definition group_by_prefix :: "string list \<Rightarrow> (string \<times> string list) list" where
  "group_by_prefix keys = foldl (\<lambda>groups key. group_append groups (prefix_of key) key) [] keys"

text \<open>\<open>todo = [key for key in sprites if not is_enriched(sprites[key])]\<close>.\<close>

definition todo_keys :: "catalog \<Rightarrow> string list" where
  "todo_keys sprites =
     filter (\<lambda>key. case map_of sprites key of None \<Rightarrow> False | Some info \<Rightarrow> \<not> is_enriched info)
       (map fst sprites)"

text \<open>
  \<open>for prefix in sorted(groups.keys()): ordered_keys.extend(sorted(groups[prefix]))\<close>.
\<close>

definition ordered_keys :: "string list \<Rightarrow> string list" where
  "ordered_keys todo =
     (let groups = group_by_prefix todo in
      concat (map (\<lambda>prefix. case map_of groups prefix of None \<Rightarrow> [] | Some ks \<Rightarrow> sort ks)
                (sort (map fst groups))))"

text \<open>\<open>range(start, stop, step)\<close> for a positive step.\<close>

function range_from :: "nat \<Rightarrow> nat \<Rightarrow> nat \<Rightarrow> nat list" where
  "range_from i stop step =
     (if step = 0 \<or> stop \<le> i then [] else i # range_from (i + step) stop step)"
  by pat_completeness auto
termination
  by (relation "measure (\<lambda>(i, stop, step). stop - i)") auto

declare range_from.simps [simp del]

text \<open>
  \<open>xs[:n]\<close>: a negative \<open>n\<close> counts from the end.
\<close>

definition slice_to :: "'a list \<Rightarrow> int \<Rightarrow> 'a list" where
  "slice_to xs n = (if n < 0 then take (nat (int (length xs) + n)) xs else take (nat n) xs)"

text \<open>
  The batches of the loop
  \<open>for batch_start in range(0, len(ordered_keys), batch_size):
     batch_keys = ordered_keys[batch_start:batch_start + batch_size]\<close>.
  A negative \<open>batch_size\<close> gives an empty range.
\<close>

definition batches_of :: "string list \<Rightarrow> int \<Rightarrow> string list list" where
  "batches_of keys batch_size =
     (if batch_size \<le> 0 then []
      else map (\<lambda>start. take (nat batch_size) (drop start keys))
             (range_from 0 (length keys) (nat batch_size)))"

text \<open>
  The keys that \<open>process_atlas\<close> walks through, and its batches (what \<open>--dry-run\<close>
  prints).  \<open>math.ceil(len(todo) / batch_size)\<close> is printed first and raises for a
  batch size of zero; an empty \<open>todo\<close> returns before anything is planned; a non-zero
  \<open>limit\<close> keeps the first \<open>limit * batch_size\<close> keys.
\<close>

definition planned_keys :: "catalog \<Rightarrow> int \<Rightarrow> int \<Rightarrow> string list" where
  "planned_keys sprites batch_size limit =
     (let ordered = ordered_keys (todo_keys sprites) in
      if limit \<noteq> 0 then slice_to ordered (limit * batch_size) else ordered)"

definition plan_batches :: "catalog \<Rightarrow> int \<Rightarrow> int \<Rightarrow> py_error + string list list" where
  "plan_batches sprites batch_size limit =
     (if batch_size = 0 then Inl ZeroDivisionError
      else if todo_keys sprites = [] then Inr []
      else Inr (batches_of (planned_keys sprites batch_size limit) batch_size))"

text \<open>A small catalog used in the examples: four sprites still to enrich, one enriched.\<close>

definition blank_entity :: entity where
  "blank_entity = \<lparr>description = None, tags = None, tile_type = None\<rparr>"

definition ring_entity :: entity where
  "ring_entity =
     \<lparr>description = Some (JStr ''A gold ring''), tags = Some [JStr ''gold'', JStr ''magical''],
      tile_type = Some (JStr ''ring'')\<rparr>"

definition example_catalog :: catalog where
  "example_catalog =
     [(''dungeon/walls/w.png'', blank_entity),
      (''dungeon/doors/c.png'', blank_entity),
      (''item/ring/r.png'', ring_entity),
      (''dungeon/doors/a.png'', blank_entity),
      (''dungeon/doors/b.png'', blank_entity)]"

section \<open>Saving the index (save\_index)\<close>

text \<open>
  \<open>save_index\<close> opens the target with mode \<open>"w"\<close>, lets \<open>json.dump\<close> write the
  document into it, and writes a final newline.  A file is its text, or \<open>None\<close> when it
  does not exist.  \<open>json.dump\<close> writes the chunks its encoder yields, one \<open>write\<close>
  each; the chunks for \<open>data\<close> are the parameter \<open>chunks\<close>.
\<close>

datatype file_op = Open_truncate | Write string

fun apply_file_op :: "string option \<Rightarrow> file_op \<Rightarrow> string option" where
  "apply_file_op f Open_truncate = Some []"
| "apply_file_op f (Write s) = Some ((case f of None \<Rightarrow> [] | Some t \<Rightarrow> t) @ s)"

definition save_index_ops :: "string list \<Rightarrow> file_op list" where
  "save_index_ops chunks = Open_truncate # map Write chunks @ [Write ''\<newline>'']"

text \<open>The file after the first \<open>n\<close> operations of a save: a save cut short there.\<close>

definition save_index_upto :: "nat \<Rightarrow> string list \<Rightarrow> string option \<Rightarrow> string option" where
  "save_index_upto n chunks file = foldl apply_file_op file (take n (save_index_ops chunks))"

definition save_index :: "string list \<Rightarrow> string option \<Rightarrow> string option" where
  "save_index chunks file = foldl apply_file_op file (save_index_ops chunks)"

section \<open>Reading the oracle's reply (parse\_ai\_response)\<close>

subsection \<open>Whitespace and searching\<close>

text \<open>\<open>str.isspace\<close> and the regular expression class \<open>\s\<close>, for code points below 256.\<close>

definition is_space :: "char \<Rightarrow> bool" where
  "is_space c = ((of_char c :: nat) \<in> {9, 10, 11, 12, 13, 28, 29, 30, 31, 32, 133, 160})"

text \<open>\<open>s.strip()\<close>.\<close>

definition strip :: "string \<Rightarrow> string" where
  "strip s = rev (dropWhile is_space (rev (dropWhile is_space s)))"

text \<open>The text after the first occurrence of \<open>pat\<close> in \<open>s\<close>, if there is one.\<close>

fun after_first :: "string \<Rightarrow> string \<Rightarrow> string option" where
  "after_first pat [] = (if pat = [] then Some [] else None)"
| "after_first pat (c # cs) =
     (if startswith (c # cs) pat then Some (drop (length pat) (c # cs))
      else after_first pat cs)"

subsection \<open>A JSON decoder for the examples\<close>

text \<open>
  \<open>json.loads\<close> is Python's library, not the tagger's code: \<open>parse_ai_response\<close> below
  takes the decoder as a parameter \<open>loads\<close> (\<open>None\<close> for \<open>JSONDecodeError\<close>), and
  every general statement holds for any decoder.  The examples need a decoder to run:
  \<open>json_loads\<close> reads JSON documents whose numbers are integers and whose string
  escapes stay below code point 256, as \<open>json.loads\<close> does, and rejects the rest.
\<close>

definition json_ws :: "char \<Rightarrow> bool" where
  "json_ws c = (c = CHR '' '' \<or> c = CHR 0x09 \<or> c = CHR 0x0A \<or> c = CHR 0x0D)"

definition is_digit :: "char \<Rightarrow> bool" where
  "is_digit c = (CHR ''0'' \<le> c \<and> c \<le> CHR ''9'')"

definition digit_val :: "char \<Rightarrow> int" where
  "digit_val c = int (of_char c) - 48"

definition hex_val :: "char \<Rightarrow> nat option" where
  "hex_val c =
     (if is_digit c then Some (of_char c - 48)
      else if CHR ''a'' \<le> c \<and> c \<le> CHR ''f'' then Some (of_char c - 87)
      else if CHR ''A'' \<le> c \<and> c \<le> CHR ''F'' then Some (of_char c - 55)
      else None)"

text \<open>
  The body of a string literal, after the opening quote, with what follows it.  The
  mode tells where the scan is: in plain text, right after a backslash, or inside
  \<open>\uXXXX\<close> with some digits left and the value read so far.
\<close>

datatype str_mode = Plain | Escaped | Unicode nat nat

definition simple_escape :: "char \<Rightarrow> char option" where
  "simple_escape e =
     (if e = CHR 0x22 \<or> e = backslash \<or> e = CHR ''/'' then Some e
      else if e = CHR ''b'' then Some (CHR 0x08)
      else if e = CHR ''f'' then Some (CHR 0x0C)
      else if e = CHR ''n'' then Some (CHR 0x0A)
      else if e = CHR ''r'' then Some (CHR 0x0D)
      else if e = CHR ''t'' then Some (CHR 0x09)
      else None)"

definition cons_fst :: "char \<Rightarrow> (string \<times> string) option \<Rightarrow> (string \<times> string) option" where
  "cons_fst c r = map_option (\<lambda>(s, t). (c # s, t)) r"

primrec parse_string_body :: "string \<Rightarrow> str_mode \<Rightarrow> (string \<times> string) option" where
  "parse_string_body [] m = None"
| "parse_string_body (c # cs) m =
     (case m of
        Plain \<Rightarrow>
          if c = CHR 0x22 then Some ([], cs)
          else if c = backslash then parse_string_body cs Escaped
          else if (of_char c :: nat) < 32 then None
          else cons_fst c (parse_string_body cs Plain)
      | Escaped \<Rightarrow>
          if c = CHR ''u'' then parse_string_body cs (Unicode 4 0)
          else (case simple_escape c of
                  None \<Rightarrow> None
                | Some x \<Rightarrow> cons_fst x (parse_string_body cs Plain))
      | Unicode k acc \<Rightarrow>
          (case hex_val c of
             None \<Rightarrow> None
           | Some h \<Rightarrow>
               if k = 1 then
                 (if 16 * acc + h < 256
                  then cons_fst (char_of (16 * acc + h)) (parse_string_body cs Plain)
                  else None)
               else parse_string_body cs (Unicode (k - 1) (16 * acc + h))))"

text \<open>An integer literal: an optional minus, then \<open>0\<close> or digits not starting with 0.\<close>

definition parse_digits :: "string \<Rightarrow> (int \<times> string) option" where
  "parse_digits s =
     (let ds = takeWhile is_digit s; r = dropWhile is_digit s in
      if ds = [] then None
      else if hd ds = CHR ''0'' then Some (0, tl s)
      else Some (foldl (\<lambda>n d. 10 * n + digit_val d) 0 ds, r))"

definition parse_int :: "string \<Rightarrow> (int \<times> string) option" where
  "parse_int s =
     (case (case s of
              c # cs \<Rightarrow> if c = CHR ''-'' then map_option (\<lambda>(n, r). (- n, r)) (parse_digits cs)
                        else parse_digits s
            | [] \<Rightarrow> None) of
        None \<Rightarrow> None
      | Some (n, r) \<Rightarrow>
          (case r of
             c # _ \<Rightarrow> if c = CHR ''.'' \<or> c = CHR ''e'' \<or> c = CHR ''E'' then None else Some (n, r)
           | [] \<Rightarrow> Some (n, r)))"

text \<open>\<open>d[k] = v\<close> on a dict: a known key keeps its place.\<close>

fun dict_set :: "(string \<times> 'v) list \<Rightarrow> string \<Rightarrow> 'v \<Rightarrow> (string \<times> 'v) list" where
  "dict_set [] k v = [(k, v)]"
| "dict_set ((k', v') # d) k v = (if k' = k then (k, v) # d else (k', v') # dict_set d k v)"

text \<open>
  The elements of an array after the first, and the members of an object, read with the
  value parser \<open>pv\<close>; \<open>fuel\<close> bounds the number of elements.
\<close>

primrec parse_elems :: "nat \<Rightarrow> (string \<Rightarrow> (json \<times> string) option) \<Rightarrow> json list \<Rightarrow> string \<Rightarrow> (json \<times> string) option" where
  "parse_elems 0 pv acc s = None"
| "parse_elems (Suc n) pv acc s =
     (case pv s of
        None \<Rightarrow> None
      | Some (v, r) \<Rightarrow>
          (case dropWhile json_ws r of
             [] \<Rightarrow> None
           | c # u \<Rightarrow>
               if c = CHR '','' then parse_elems n pv (acc @ [v]) u
               else if c = CHR '']'' then Some (JArr (acc @ [v]), u)
               else None))"

definition parse_member :: "(string \<Rightarrow> (json \<times> string) option) \<Rightarrow> string \<Rightarrow> ((string \<times> json) \<times> string) option" where
  "parse_member pv s =
     (case dropWhile json_ws s of
        [] \<Rightarrow> None
      | q # r \<Rightarrow>
          if q \<noteq> CHR 0x22 then None
          else (case parse_string_body r Plain of
                  None \<Rightarrow> None
                | Some (k, r1) \<Rightarrow>
                    (case dropWhile json_ws r1 of
                       [] \<Rightarrow> None
                     | c # r2 \<Rightarrow>
                         if c \<noteq> CHR '':'' then None
                         else (case pv r2 of
                                 None \<Rightarrow> None
                               | Some (v, r3) \<Rightarrow> Some ((k, v), r3)))))"

primrec parse_members :: "nat \<Rightarrow> (string \<Rightarrow> (json \<times> string) option) \<Rightarrow> (string \<times> json) list \<Rightarrow> string \<Rightarrow> (json \<times> string) option" where
  "parse_members 0 pv acc s = None"
| "parse_members (Suc n) pv acc s =
     (case parse_member pv s of
        None \<Rightarrow> None
      | Some ((k, v), r) \<Rightarrow>
          (case dropWhile json_ws r of
             [] \<Rightarrow> None
           | d # u \<Rightarrow>
               if d = CHR '','' then parse_members n pv (dict_set acc k v) u
               else if d = CHR ''}'' then Some (JObj (dict_set acc k v), u)
               else None))"

text \<open>A value; \<open>fuel\<close> bounds the nesting depth.\<close>

primrec parse_value :: "nat \<Rightarrow> string \<Rightarrow> (json \<times> string) option" where
  "parse_value 0 s = None"
| "parse_value (Suc n) s =
     (let t = dropWhile json_ws s in
      if startswith t ''null'' then Some (JNull, drop 4 t)
      else if startswith t ''true'' then Some (JBool True, drop 4 t)
      else if startswith t ''false'' then Some (JBool False, drop 5 t)
      else (case t of
              [] \<Rightarrow> None
            | c # r \<Rightarrow>
                if c = CHR 0x22 then map_option (\<lambda>(x, u). (JStr x, u)) (parse_string_body r Plain)
                else if c = CHR ''['' then
                  (case dropWhile json_ws r of
                     [] \<Rightarrow> None
                   | d # u \<Rightarrow>
                       if d = CHR '']'' then Some (JArr [], u)
                       else parse_elems (length r) (parse_value n) [] r)
                else if c = CHR ''{'' then
                  (case dropWhile json_ws r of
                     [] \<Rightarrow> None
                   | d # u \<Rightarrow>
                       if d = CHR ''}'' then Some (JObj [], u)
                       else parse_members (length r) (parse_value n) [] r)
                else map_option (\<lambda>(i, u). (JInt i, u)) (parse_int t)))"

definition json_loads :: "string \<Rightarrow> json option" where
  "json_loads s =
     (case parse_value (Suc (length s)) s of
        None \<Rightarrow> None
      | Some (v, r) \<Rightarrow> if dropWhile json_ws r = [] then Some v else None)"

subsection \<open>The reply text\<close>

text \<open>
  The text of the command-line wrapper's reply: \<open>response["result"]\<close> when it is there and
  true, else the joined text blocks of \<open>response["content"]\<close> (or \<open>content\<close> itself when
  a string), else the first of \<open>text\<close>, \<open>message\<close>, \<open>output\<close> that is a string.  The
  value is whatever the reply holds: \<open>" ".join\<close> raises on a block text that is not a
  string.
\<close>

fun join_texts :: "json list \<Rightarrow> py_error + string list" where
  "join_texts [] = Inr []"
| "join_texts (block # blocks) =
     (case block of
        JObj kvs \<Rightarrow>
          (if dict_get kvs ''type'' = JStr ''text'' then
             (case (case map_of kvs ''text'' of None \<Rightarrow> JStr [] | Some v \<Rightarrow> v) of
                JStr s \<Rightarrow> (case join_texts blocks of Inl e \<Rightarrow> Inl e | Inr ss \<Rightarrow> Inr (s # ss))
              | _ \<Rightarrow> Inl TypeError)
           else join_texts blocks)
      | _ \<Rightarrow> join_texts blocks)"

fun first_str_key :: "(string \<times> json) list \<Rightarrow> string list \<Rightarrow> json" where
  "first_str_key response [] = JStr []"
| "first_str_key response (key # keys) =
     (case map_of response key of
        Some (JStr s) \<Rightarrow> JStr s
      | _ \<Rightarrow> first_str_key response keys)"

definition response_text :: "json \<Rightarrow> py_error + json" where
  "response_text response =
     (case response of
        JObj kvs \<Rightarrow>
          (case (if map_of kvs ''result'' \<noteq> None \<and> truthy (dict_get kvs ''result'')
                 then Inr (dict_get kvs ''result'')
                 else if map_of kvs ''content'' \<noteq> None then
                   (case dict_get kvs ''content'' of
                      JArr blocks \<Rightarrow>
                        (case join_texts blocks of
                           Inl e \<Rightarrow> Inl e
                         | Inr ss \<Rightarrow> Inr (JStr (join_with '' '' ss)))
                    | JStr s \<Rightarrow> Inr (JStr s)
                    | _ \<Rightarrow> Inr (JStr []))
                 else Inr (JStr [])) of
             Inl e \<Rightarrow> Inl e
           | Inr text \<Rightarrow>
               if \<not> truthy text then Inr (first_str_key kvs [''text'', ''message'', ''output''])
               else Inr text)
      | _ \<Rightarrow> Inr (JStr []))"

subsection \<open>The three ways to find the array\<close>

text \<open>
  The match of \<open>```(?:json)?\s*\n?(.*?)\n?\s*```\<close> (with \<open>re.DOTALL\<close>) found by
  \<open>re.search\<close>, as its group 1.  The match starts at the first \<open>```\<close>; the optional
  \<open>json\<close> and the white space after it are taken greedily; the lazy group then grows
  until what follows is white space and \<open>```\<close>.  When this way fails, no other way of
  matching and no later start succeeds, since each needs a closing \<open>```\<close> further right.
\<close>

definition fence :: string where
  "fence = ''```''"

fun lazy_group :: "string \<Rightarrow> string option" where
  "lazy_group [] = None"
| "lazy_group (c # cs) =
     (if startswith (dropWhile is_space (c # cs)) fence then Some []
      else map_option (Cons c) (lazy_group cs))"

definition fence_match :: "string \<Rightarrow> string option" where
  "fence_match text =
     (case after_first fence text of
        None \<Rightarrow> None
      | Some r1 \<Rightarrow>
          (let r2 = (if startswith r1 ''json'' then drop 4 r1 else r1) in
           lazy_group (dropWhile is_space r2)))"

text \<open>
  The match of \<open>\[[\s\S]*\]\<close>: from the first \<open>[\<close> to the last \<open>]\<close> after it.
\<close>

definition array_match :: "string \<Rightarrow> string option" where
  "array_match text =
     (case dropWhile (\<lambda>c. c \<noteq> CHR ''['') text of
        [] \<Rightarrow> None
      | c # r \<Rightarrow>
          (let inner = rev (dropWhile (\<lambda>c. c \<noteq> CHR '']'') (rev r)) in
           if inner = [] then None else Some (c # inner)))"

text \<open>\<open>json.loads(s)\<close> when the result is a list, as the three attempts test it.\<close>

definition loads_list :: "(string \<Rightarrow> json option) \<Rightarrow> string \<Rightarrow> json list option" where
  "loads_list loads s = (case loads s of Some (JArr xs) \<Rightarrow> Some xs | _ \<Rightarrow> None)"

text \<open>
  The part of \<open>parse_ai_response\<close> after \<open>text = text.strip()\<close>.
\<close>

definition parse_text :: "(string \<Rightarrow> json option) \<Rightarrow> string \<Rightarrow> json list option" where
  "parse_text loads text =
     (case loads_list loads text of
        Some parsed \<Rightarrow> Some parsed
      | None \<Rightarrow>
          (case (if after_first fence text \<noteq> None then
                   (case fence_match text of
                      None \<Rightarrow> None
                    | Some g \<Rightarrow> loads_list loads (strip g))
                 else None) of
             Some parsed \<Rightarrow> Some parsed
           | None \<Rightarrow>
               (case array_match text of
                  None \<Rightarrow> None
                | Some m \<Rightarrow> loads_list loads m)))"

text \<open>
  \<open>parse_ai_response\<close>: \<open>None\<close> when nothing could be read; \<open>text.strip()\<close> raises
  when the reply's text is not a string.
\<close>

definition parse_ai_response :: "(string \<Rightarrow> json option) \<Rightarrow> string \<Rightarrow> py_error + json list option" where
  "parse_ai_response loads stdout =
     (case loads stdout of
        None \<Rightarrow> Inr None
      | Some response \<Rightarrow>
          (case response_text response of
             Inl e \<Rightarrow> Inl e
           | Inr text \<Rightarrow>
               if \<not> truthy text then Inr None
               else (case text of
                       JStr s \<Rightarrow> Inr (parse_text loads (strip s))
                     | _ \<Rightarrow> Inl AttributeError)))"

subsection \<open>The layered strategy in the words of the specification\<close>




section \<open>Merging enrichments (process\_atlas)\<close>

subsection \<open>Python equality on decoded JSON\<close>

text \<open>
  \<open>==\<close> on decoded JSON values: \<open>True == 1\<close> and \<open>False == 0\<close>, lists are equal
  element by element, dicts are equal when they hold equal values under the same keys,
  whatever the order.  \<open>py_norm\<close> maps a value to a representative of its class: booleans
  become integers, and a dict lists its keys once, in sorted order.
\<close>

fun first_per_key :: "(string \<times> 'v) list \<Rightarrow> (string \<times> 'v) list" where
  "first_per_key [] = []"
| "first_per_key ((k, v) # kvs) = (k, v) # first_per_key (filter (\<lambda>kv. fst kv \<noteq> k) kvs)"

fun py_norm :: "json \<Rightarrow> json" where
  "py_norm JNull = JNull"
| "py_norm (JBool b) = JInt (if b then 1 else 0)"
| "py_norm (JInt i) = JInt i"
| "py_norm (JStr s) = JStr s"
| "py_norm (JArr xs) = JArr (map py_norm xs)"
| "py_norm (JObj kvs) = JObj (sort_key fst (first_per_key (map (\<lambda>kv. (fst kv, py_norm (snd kv))) kvs)))"

definition py_eq :: "json \<Rightarrow> json \<Rightarrow> bool" where
  "py_eq a b = (py_norm a = py_norm b)"

text \<open>\<open>x in xs\<close> and \<open>xs.remove(x)\<close> on a list: \<open>remove\<close> takes out the first equal element.\<close>

definition py_in :: "json \<Rightarrow> json list \<Rightarrow> bool" where
  "py_in x xs = list_ex (py_eq x) xs"

fun py_remove :: "json \<Rightarrow> json list \<Rightarrow> json list" where
  "py_remove x [] = []"
| "py_remove x (y # ys) = (if py_eq y x then ys else y # py_remove x ys)"

subsection \<open>One entry, one sprite\<close>

text \<open>
  \<open># Strip tile_type from tags if it snuck in\<close>:
  \<open>tt = sprites[key].get("tile_type"); tags = sprites[key].get("tags", []);
    if tt and tt in tags: tags.remove(tt); sprites[key]["tags"] = tags\<close>.
\<close>

definition strip_tile_type :: "entity \<Rightarrow> entity" where
  "strip_tile_type info =
     (let tt = opt_get (tile_type info);
          ts = (case tags info of None \<Rightarrow> [] | Some xs \<Rightarrow> xs) in
      if truthy tt \<and> py_in tt ts then info\<lparr>tags := Some (py_remove tt ts)\<rparr> else info)"

text \<open>
  The body of the merge loop for an entry that is a dict: each field is stored when the
  entry holds a true value for it (and, for \<open>tags\<close>, a list).
\<close>

definition apply_enrichment :: "(string \<times> json) list \<Rightarrow> entity \<Rightarrow> entity" where
  "apply_enrichment entry info =
     (let info1 = (if truthy (dict_get entry ''description'')
                   then info\<lparr>description := Some (dict_get entry ''description'')\<rparr> else info);
          info2 = (case dict_get entry ''tags'' of
                     JArr ts \<Rightarrow> if ts \<noteq> [] then info1\<lparr>tags := Some ts\<rparr> else info1
                   | _ \<Rightarrow> info1);
          info3 = (if truthy (dict_get entry ''tile_type'')
                   then info2\<lparr>tile_type := Some (dict_get entry ''tile_type'')\<rparr> else info2)
      in strip_tile_type info3)"

text \<open>What an entry does to the sprite at its position: nothing unless it is a dict.\<close>

definition entry_effect :: "json \<Rightarrow> entity \<Rightarrow> entity" where
  "entry_effect entry info = (case entry of JObj kvs \<Rightarrow> apply_enrichment kvs info | _ \<Rightarrow> info)"

text \<open>\<open>sprites[key]\<close> changed in place.\<close>

definition update_sprite :: "string \<Rightarrow> (entity \<Rightarrow> entity) \<Rightarrow> catalog \<Rightarrow> catalog" where
  "update_sprite key f sprites = map (\<lambda>(k, info). if k = key then (k, f info) else (k, info)) sprites"

text \<open>
  The merge loop: \<open>for i, key in enumerate(valid_keys)\<close>, which breaks at the end of
  \<open>enrichments\<close> and skips an entry that is not a dict.  It returns the catalog and
  \<open>applied\<close>.
\<close>

fun merge_enrichments :: "string list \<Rightarrow> json list \<Rightarrow> catalog \<Rightarrow> nat \<Rightarrow> catalog \<times> nat" where
  "merge_enrichments [] entries sprites applied = (sprites, applied)"
| "merge_enrichments (key # keys) [] sprites applied = (sprites, applied)"
| "merge_enrichments (key # keys) (entry # entries) sprites applied =
     (case entry of
        JObj kvs \<Rightarrow>
          merge_enrichments keys entries (update_sprite key (apply_enrichment kvs) sprites) (Suc applied)
      | _ \<Rightarrow> merge_enrichments keys entries sprites applied)"

section \<open>The enrichment run (process\_atlas)\<close>

text \<open>
  One call of the oracle: \<open>subprocess.run\<close> times out, raises, or completes with a
  return code and its standard output.
\<close>

datatype attempt = TimeoutExpired | SubprocessError | Completed int string

text \<open>
  What is outside the program: the JSON decoder, whether an image can be had for a key
  (\<open>get_sprite_image\<close>, from the loose file or the atlas), the oracle's answer to
  attempt \<open>i\<close> of batch \<open>n\<close> (both from 0), and whether the \<open>claude\<close> command exists.
\<close>

record env =
  json_decoder :: "string \<Rightarrow> json option"
  loadable :: "string \<Rightarrow> bool"
  oracle_reply :: "nat \<Rightarrow> nat \<Rightarrow> attempt"
  has_cli :: bool

text \<open>The paths of an atlas in \<open>ATLASES\<close>; for some atlases they are the same file.\<close>

record config =
  index_path :: string
  output_path :: string
  dcss_checks :: bool

text \<open>The index files on disk, decoded: the \<open>sprites\<close> of each file that exists.\<close>

type_synonym files = "string \<Rightarrow> catalog option"

text \<open>
  The body of one attempt: \<open>continue\<close> on a timeout, an exception or a non-zero return
  code; otherwise \<open>parse_ai_response(result.stdout)\<close>.
\<close>

definition attempt_result :: "(string \<Rightarrow> json option) \<Rightarrow> attempt \<Rightarrow> py_error + json list option" where
  "attempt_result ld a =
     (case a of
        TimeoutExpired \<Rightarrow> Inr None
      | SubprocessError \<Rightarrow> Inr None
      | Completed returncode stdout \<Rightarrow>
          if returncode \<noteq> 0 then Inr None else parse_ai_response ld stdout)"

text \<open>
  \<open>for attempt in range(max_retries)\<close>, from attempt \<open>i\<close> with \<open>n\<close> attempts left: it
  stops at the first reply that parses.
\<close>

fun try_attempts :: "(string \<Rightarrow> json option) \<Rightarrow> (nat \<Rightarrow> attempt) \<Rightarrow> nat \<Rightarrow> nat \<Rightarrow> py_error + json list option" where
  "try_attempts ld answers i 0 = Inr None"
| "try_attempts ld answers i (Suc n) =
     (case attempt_result ld (answers i) of
        Inl e \<Rightarrow> Inl e
      | Inr (Some enrichments) \<Rightarrow> Inr (Some enrichments)
      | Inr None \<Rightarrow> try_attempts ld answers (Suc i) n)"

definition max_retries :: nat where
  "max_retries = 3"

text \<open>
  The state of a run: the catalog in memory, the files, and how often \<open>save_index\<close> ran.
\<close>

record run_state =
  in_memory :: catalog
  disk :: files
  saves :: nat

text \<open>
  One turn of the batch loop.  A batch with no image is skipped; a batch whose attempts
  all fail is skipped (\<open>continue\<close>, before the merge and the save); otherwise the
  entries are merged and the catalog is saved to the output path.
\<close>

definition process_batch :: "env \<Rightarrow> config \<Rightarrow> nat \<Rightarrow> string list \<Rightarrow> run_state \<Rightarrow> py_error + run_state" where
  "process_batch e cfg batch_num batch_keys st =
     (let valid_keys = filter (loadable e) batch_keys in
      if valid_keys = [] then Inr st
      else
        (case try_attempts (json_decoder e) (oracle_reply e batch_num) 0 max_retries of
           Inl err \<Rightarrow> Inl err
         | Inr None \<Rightarrow> Inr st
         | Inr (Some enrichments) \<Rightarrow>
             (let merged = fst (merge_enrichments valid_keys enrichments (in_memory st) 0) in
              Inr \<lparr>in_memory = merged,
                   disk = (disk st)(output_path cfg \<mapsto> merged),
                   saves = Suc (saves st)\<rparr>)))"

text \<open>The batch loop; an exception ends the run with the state reached.\<close>

fun process_batches :: "env \<Rightarrow> config \<Rightarrow> nat \<Rightarrow> string list list \<Rightarrow> run_state \<Rightarrow> py_error option \<times> run_state" where
  "process_batches e cfg batch_num [] st = (None, st)"
| "process_batches e cfg batch_num (batch_keys # rest) st =
     (case process_batch e cfg batch_num batch_keys st of
        Inl err \<Rightarrow> (Some err, st)
      | Inr st' \<Rightarrow> process_batches e cfg (Suc batch_num) rest st')"

text \<open>
  The catalog a run starts from: the output file when it exists (to resume), else the
  index file; nothing when there is no index file.
\<close>

definition load_for_run :: "config \<Rightarrow> files \<Rightarrow> catalog option" where
  "load_for_run cfg fs =
     (case fs (index_path cfg) of
        None \<Rightarrow> None
      | Some idx \<Rightarrow> (case fs (output_path cfg) of Some out \<Rightarrow> Some out | None \<Rightarrow> Some idx))"

text \<open>
  \<open>process_atlas\<close>: the files after the run, the exception that ended it if one did,
  and the number of saves.
\<close>

definition process_atlas :: "env \<Rightarrow> config \<Rightarrow> int \<Rightarrow> bool \<Rightarrow> int \<Rightarrow> files \<Rightarrow> py_error option \<times> run_state" where
  "process_atlas e cfg batch_size dry_run limit fs =
     (case load_for_run cfg fs of
        None \<Rightarrow> (None, \<lparr>in_memory = [], disk = fs, saves = 0\<rparr>)
      | Some data \<Rightarrow>
          (let st = \<lparr>in_memory = data, disk = fs, saves = 0\<rparr> in
           if batch_size = 0 then (Some ZeroDivisionError, st)
           else if todo_keys data = [] then (None, st)
           else if dry_run then (None, st)
           else if \<not> has_cli e then (None, st)
           else process_batches e cfg 0
                  (batches_of (planned_keys data batch_size limit) batch_size) st))"

text \<open>
  An attempt that fails: a timeout, a subprocess error, a non-zero return code, or a
  reply from which \<open>parse_ai_response\<close> reads nothing.
\<close>

definition attempt_fails :: "(string \<Rightarrow> json option) \<Rightarrow> attempt \<Rightarrow> bool" where
  "attempt_fails ld a =
     (case a of
        TimeoutExpired \<Rightarrow> True
      | SubprocessError \<Rightarrow> True
      | Completed returncode stdout \<Rightarrow> returncode \<noteq> 0 \<or> parse_ai_response ld stdout = Inr None)"

subsection \<open>An example run\<close>

text \<open>
  The document the command-line wrapper prints for a reply text: a JSON object whose
  \<open>result\<close> is the text, with quotes, backslashes and newlines escaped.
\<close>

fun json_escape :: "string \<Rightarrow> string" where
  "json_escape [] = []"
| "json_escape (c # cs) =
     (if c = CHR 0x22 \<or> c = backslash then backslash # c # json_escape cs
      else if c = CHR 0x0A then backslash # CHR ''n'' # json_escape cs
      else c # json_escape cs)"

definition cli_reply :: "string \<Rightarrow> string" where
  \<open>cli_reply reply = ''{"type": "result", "result": "'' @ json_escape reply @ ''"}''\<close>

definition doors_reply :: string where
  \<open>doors_reply =
     ''[{"description": "A wooden door", "tags": ["door", "wood"], "tile_type": "door"}, '' @
     ''{"description": "An iron door", "tags": ["metal"], "tile_type": "door"}]''\<close>

text \<open>
  An oracle that answers the first batch at once and fails the second batch in every
  way: a timeout, a non-zero return code, then replies that hold no array.
\<close>

definition example_env :: env where
  "example_env =
     \<lparr>json_decoder = json_loads,
      loadable = (\<lambda>key. True),
      oracle_reply = (\<lambda>n i.
         if n = 0 then Completed 0 (cli_reply doors_reply)
         else if i = 0 then TimeoutExpired
         else if i = 1 then Completed 1 []
         else Completed 0 (cli_reply ''I could not read the image.'')),
      has_cli = True\<rparr>"

definition example_config :: config where
  "example_config =
     \<lparr>index_path = ''index.json'', output_path = ''index_tagged.json'', dcss_checks = False\<rparr>"

definition example_files :: files where
  "example_files = (\<lambda>path. if path = ''index.json'' then Some example_catalog else None)"

section \<open>Applying the fixes of a verify pass (verify\_atlas)\<close>

text \<open>
  What the fix log receives, one entry per \<open>write\<close>: the \<open>FIX: key\<close> line, the name
  of a changed field, its value before and its value after.
\<close>

datatype log_line =
    Log_fix string
  | Log_field string
  | Log_before json
  | Log_after json

record verify_state =
  v_sprites :: catalog
  v_applied :: nat
  v_log :: "log_line list"

text \<open>
  \<open>idx = fix["index"] - 1\<close>: a \<open>bool\<close> counts as 0 or 1, anything else but an
  integer raises.
\<close>

definition index_minus_one :: "json \<Rightarrow> py_error + int" where
  "index_minus_one v =
     (case v of
        JInt i \<Rightarrow> Inr (i - 1)
      | JBool b \<Rightarrow> Inr ((if b then 1 else 0) - 1)
      | _ \<Rightarrow> Inl TypeError)"

text \<open>
  \<open>old\<close>: the three fields before the fix, with the defaults of
  \<open>.get("description", "")\<close>, \<open>.get("tags", [])\<close> and \<open>.get("tile_type", "")\<close>.
\<close>

definition old_description :: "entity \<Rightarrow> json" where
  "old_description info = (case description info of None \<Rightarrow> JStr [] | Some v \<Rightarrow> v)"

definition old_tags :: "entity \<Rightarrow> json list" where
  "old_tags info = (case tags info of None \<Rightarrow> [] | Some ts \<Rightarrow> ts)"

definition old_tile_type :: "entity \<Rightarrow> json" where
  "old_tile_type info = (case tile_type info of None \<Rightarrow> JStr [] | Some v \<Rightarrow> v)"

text \<open>The assignments of one fix, and the removal of the tile type from the tags.\<close>

definition apply_fix_fields :: "(string \<times> json) list \<Rightarrow> entity \<Rightarrow> entity" where
  "apply_fix_fields fix info =
     (let info1 = (if truthy (dict_get fix ''description'')
                      \<and> \<not> py_eq (dict_get fix ''description'') (old_description info)
                   then info\<lparr>description := Some (dict_get fix ''description'')\<rparr> else info);
          info2 = (case dict_get fix ''tags'' of
                     JArr ts \<Rightarrow> if ts \<noteq> [] then info1\<lparr>tags := Some ts\<rparr> else info1
                   | _ \<Rightarrow> info1);
          info3 = (if truthy (dict_get fix ''tile_type'')
                      \<and> \<not> py_eq (dict_get fix ''tile_type'') (old_tile_type info)
                   then info2\<lparr>tile_type := Some (dict_get fix ''tile_type'')\<rparr> else info2)
      in strip_tile_type info3)"

text \<open>
  \<open>changed\<close>: each field is compared, as \<open>sprites[key].get(field)\<close>, with its old
  value.  A missing \<open>tags\<close> key reads as \<open>None\<close>, which differs from the old value
  \<open>[]\<close>.
\<close>

definition changed_fields :: "entity \<Rightarrow> entity \<Rightarrow> string list" where
  "changed_fields old new =
     (if \<not> py_eq (opt_get (description new)) (old_description old) then [''description''] else [])
     @ (if (case tags new of None \<Rightarrow> True | Some ts \<Rightarrow> \<not> py_eq (JArr ts) (JArr (old_tags old)))
        then [''tags''] else [])
     @ (if \<not> py_eq (opt_get (tile_type new)) (old_tile_type old) then [''tile_type''] else [])"

text \<open>\<open>old[full]\<close> and \<open>sprites[key][full]\<close>; the latter raises on a missing key.\<close>

definition old_field :: "entity \<Rightarrow> string \<Rightarrow> json" where
  "old_field old full =
     (if full = ''description'' then old_description old
      else if full = ''tags'' then JArr (old_tags old)
      else old_tile_type old)"

definition new_field :: "entity \<Rightarrow> string \<Rightarrow> json option" where
  "new_field new full =
     (if full = ''description'' then description new
      else if full = ''tags'' then map_option JArr (tags new)
      else tile_type new)"

text \<open>The log lines of the changed fields, up to the first field that raises.\<close>

fun log_changes :: "entity \<Rightarrow> entity \<Rightarrow> string list \<Rightarrow> log_line list \<Rightarrow> py_error option \<times> log_line list" where
  "log_changes old new [] lg = (None, lg)"
| "log_changes old new (full # rest) lg =
     (case new_field new full of
        None \<Rightarrow> (Some KeyError, lg @ [Log_field full, Log_before (old_field old full)])
      | Some v \<Rightarrow>
          log_changes old new rest
            (lg @ [Log_field full, Log_before (old_field old full), Log_after v]))"

text \<open>
  The body of \<open>for fix in fixes\<close>.  The result holds the exception, if one was raised,
  and the state reached.
\<close>

definition apply_fix :: "string list \<Rightarrow> json \<Rightarrow> verify_state \<Rightarrow> py_error option \<times> verify_state" where
  "apply_fix valid_keys fix st =
     (case fix of
        JObj kvs \<Rightarrow>
          (case map_of kvs ''index'' of
             None \<Rightarrow> (None, st)
           | Some iv \<Rightarrow>
               (case index_minus_one iv of
                  Inl err \<Rightarrow> (Some err, st)
                | Inr idx \<Rightarrow>
                    if idx < 0 \<or> idx \<ge> int (length valid_keys) then (None, st)
                    else
                      (let key = valid_keys ! nat idx in
                       case map_of (v_sprites st) key of
                         None \<Rightarrow> (Some KeyError, st)
                       | Some old \<Rightarrow>
                           (let new = apply_fix_fields kvs old;
                                st1 = st\<lparr>v_sprites := update_sprite key (\<lambda>_. new) (v_sprites st)\<rparr>;
                                changed = changed_fields old new in
                            if changed = [] then (None, st1)
                            else
                              (case log_changes old new changed (v_log st @ [Log_fix key]) of
                                 (err, lg) \<Rightarrow>
                                   (err, st1\<lparr>v_applied := Suc (v_applied st), v_log := lg\<rparr>))))))
      | _ \<Rightarrow> (None, st))"

fun apply_fixes :: "string list \<Rightarrow> json list \<Rightarrow> verify_state \<Rightarrow> py_error option \<times> verify_state" where
  "apply_fixes valid_keys [] st = (None, st)"
| "apply_fixes valid_keys (fix # fixes) st =
     (case apply_fix valid_keys fix st of
        (Some err, st') \<Rightarrow> (Some err, st')
      | (None, st') \<Rightarrow> apply_fixes valid_keys fixes st')"

text \<open>
  A sprite that a merge can leave behind: the entry gave a description and a tile type
  but no tags.  The verify pass selects it (it asks for a description and a tile type
  only).
\<close>

definition untagged_wall :: entity where
  "untagged_wall =
     \<lparr>description = Some (JStr ''A grey stone wall with mossy cracks''), tags = None,
      tile_type = Some (JStr ''wall'')\<rparr>"

section \<open>The consistency checks (check\_atlas, check\_dcss)\<close>

subsection \<open>Constants and string helpers\<close>

definition HOLY_GODS :: "string list" where
  "HOLY_GODS = [''zin'', ''shining_one'', ''elyvilon'']"

definition UNHOLY_GODS :: "string list" where
  "UNHOLY_GODS = [''beogh'', ''jiyva'', ''kikubaaqudgha'', ''lugonu'', ''makhleb'', ''yredelemnul'']"

definition CREATURE_STRIP_TAGS :: "string list" where
  "CREATURE_STRIP_TAGS = [''armour'', ''equipment'', ''weapon'', ''player'']"

definition ALTAR_STRIP_TAGS :: "string list" where
  "ALTAR_STRIP_TAGS = [''weapon'', ''sword'']"

definition TAG_SPELLING :: "(string \<times> string) list" where
  "TAG_SPELLING = [(''gray'', ''grey''), (''armor'', ''armour'')]"

definition DESC_SPELLING :: "(string \<times> string) list" where
  "DESC_SPELLING = [(''gray'', ''grey''), (''armor'', ''armour'')]"

definition DIR_EXPECTED_TAGS :: "(string \<times> string list) list" where
  "DIR_EXPECTED_TAGS =
     [(''dungeon/doors'', [''door'']), (''dungeon/altars'', [''altar'']),
      (''dungeon/walls'', [''wall'']), (''dungeon/floor'', [''floor'']),
      (''monster/undead'', [''undead'']), (''monster/demons'', [''demon'']),
      (''monster/dragons'', [''dragon'']), (''monster/insects'', [''insect'']),
      (''item/weapon'', [''weapon'']), (''item/armour'', [''armour'']),
      (''item/potion'', [''potion'']), (''item/scroll'', [''scroll'']),
      (''item/wand'', [''wand'']), (''item/ring'', [''ring'']),
      (''item/amulet'', [''amulet'']), (''item/book'', [''book'']),
      (''item/food'', [''food'']), (''item/gold'', [''gold'']),
      (''player/'', [''player''])]"

text \<open>\<open>\w\<close> for code points below 256: a letter, a digit or other numeric, or \<open>_\<close>.\<close>

definition is_word_char :: "char \<Rightarrow> bool" where
  "is_word_char c =
     (let n = (of_char c :: nat) in
      (48 \<le> n \<and> n \<le> 57) \<or> (65 \<le> n \<and> n \<le> 90) \<or> n = 95 \<or> (97 \<le> n \<and> n \<le> 122)
      \<or> n = 170 \<or> n = 178 \<or> n = 179 \<or> n = 181 \<or> n = 185 \<or> n = 186
      \<or> n = 188 \<or> n = 189 \<or> n = 190
      \<or> (192 \<le> n \<and> n \<le> 214) \<or> (216 \<le> n \<and> n \<le> 246) \<or> (248 \<le> n \<and> n \<le> 255))"

text \<open>Lower case of an ASCII letter, for \<open>re.IGNORECASE\<close> on an ASCII pattern.\<close>

definition ascii_lower :: "char \<Rightarrow> char" where
  "ascii_lower c =
     (let n = (of_char c :: nat) in if 65 \<le> n \<and> n \<le> 90 then char_of (n + 32) else c)"

text \<open>
  \<open>re.compile(r'\bword\b', re.IGNORECASE).sub(repl, s)\<close> for a lower-case ASCII word:
  \<open>prev\<close> tells whether the character before is a word character.  A match needs a
  word boundary on both sides; the scan goes on after the match.
\<close>

function sub_word :: "string \<Rightarrow> string \<Rightarrow> bool \<Rightarrow> string \<Rightarrow> string" where
  "sub_word word repl prev [] = []"
| "sub_word word repl prev (c # cs) =
     (if word \<noteq> [] \<and> \<not> prev \<and> map ascii_lower (take (length word) (c # cs)) = word
         \<and> (case drop (length word) (c # cs) of [] \<Rightarrow> True | d # _ \<Rightarrow> \<not> is_word_char d)
      then repl @ sub_word word repl True (drop (length word) (c # cs))
      else c # sub_word word repl (is_word_char c) cs)"
  by pat_completeness auto
termination
  by (relation "measure (\<lambda>(word, repl, prev, s). length s)") auto

text \<open>\<open>s.replace(old, "")\<close> for a non-empty \<open>old\<close>.\<close>

function remove_sub :: "string \<Rightarrow> string \<Rightarrow> string" where
  "remove_sub old [] = []"
| "remove_sub old (c # cs) =
     (if old \<noteq> [] \<and> startswith (c # cs) old then remove_sub old (drop (length old) (c # cs))
      else c # remove_sub old cs)"
  by pat_completeness auto
termination
  by (relation "measure (\<lambda>(old, s). length s)") auto

text \<open>\<open>re.sub(r'^altar_?', '', s)\<close>.\<close>

definition strip_altar_prefix :: "string \<Rightarrow> string" where
  "strip_altar_prefix s =
     (if startswith s ''altar'' then
        (let r = drop 5 s in if startswith r ''_'' then drop 1 r else r)
      else s)"

text \<open>
  \<open>re.sub(r'_\d+$', '', s)\<close>: a final \<open>_\<close> and digits are removed; \<open>$\<close> also
  matches just before a newline that ends the string.
\<close>

definition strip_number_suffix :: "string \<Rightarrow> string" where
  "strip_number_suffix s =
     (let nl = (s \<noteq> [] \<and> last s = CHR 0x0A);
          body = (if nl then butlast s else s);
          digits = takeWhile is_digit (rev body);
          rest = drop (length digits) (rev body) in
      if digits \<noteq> [] \<and> startswith rest ''_''
      then rev (drop 1 rest) @ (if nl then [CHR 0x0A] else [])
      else s)"

text \<open>\<open>key.split("/")[-1].replace(".png", "")\<close>.\<close>

definition file_stem :: "string \<Rightarrow> string" where
  "file_stem path = remove_sub ''.png'' (last (split_char (CHR ''/'') path))"

text \<open>\<open>t in NAMES\<close> for a tag and a set of strings: only a string can be a member.\<close>

definition in_names :: "json \<Rightarrow> string list \<Rightarrow> bool" where
  "in_names t names = (case t of JStr s \<Rightarrow> s \<in> set names | _ \<Rightarrow> False)"

text \<open>A value that \<open>dict.get\<close> and set membership cannot hash: a list or a dict.\<close>

definition unhashable :: "json \<Rightarrow> bool" where
  "unhashable t = (case t of JArr _ \<Rightarrow> True | JObj _ \<Rightarrow> True | _ \<Rightarrow> False)"

text \<open>
  \<open>info["tags"]\<close> of an enriched sprite.  The checks run on the sprites that were
  enriched when the file was loaded; those hold the three keys, and no check removes a
  key, so the subscripts \<open>info["tags"]\<close>, \<open>info["tile_type"]\<close> and
  \<open>info["description"]\<close> never raise.
\<close>

definition the_tags :: "entity \<Rightarrow> json list" where
  "the_tags info = (case tags info of None \<Rightarrow> [] | Some ts \<Rightarrow> ts)"

subsection \<open>The rules, for one sprite\<close>

text \<open>
  Each rule takes the \<open>fix\<close> flag, the key and the sprite, and gives the sprite after
  it, the issues it appends (category and key) and the number of fixes it counts.
\<close>

type_synonym issue = "string \<times> string"

type_synonym rule_result = "entity \<times> issue list \<times> nat"

text \<open>Strip tile\_type from tags.\<close>

definition rule_tile_type_in_tags :: "bool \<Rightarrow> string \<Rightarrow> entity \<Rightarrow> py_error + rule_result" where
  "rule_tile_type_in_tags fix key info =
     (let tt = opt_get (tile_type info) in
      if truthy tt \<and> py_in tt (the_tags info) then
        (if fix then Inr (info\<lparr>tags := Some (py_remove tt (the_tags info))\<rparr>, [], 1)
         else Inr (info, [(''TILE_TYPE_IN_TAGS'', key)], 0))
      else Inr (info, [], 0))"

text \<open>Spelling normalization in tags: \<open>TAG_SPELLING.get(t, t)\<close> hashes every tag.\<close>

definition spell_tag :: "json \<Rightarrow> json" where
  "spell_tag t =
     (case t of
        JStr s \<Rightarrow> (case map_of TAG_SPELLING s of None \<Rightarrow> t | Some s' \<Rightarrow> JStr s')
      | _ \<Rightarrow> t)"

definition rule_tag_spelling :: "bool \<Rightarrow> string \<Rightarrow> entity \<Rightarrow> py_error + rule_result" where
  "rule_tag_spelling fix key info =
     (if list_ex unhashable (the_tags info) then Inl TypeError
      else
        (let new_tags = map spell_tag (the_tags info) in
         if \<not> py_eq (JArr new_tags) (JArr (the_tags info)) then
           (if fix then Inr (info\<lparr>tags := Some new_tags\<rparr>, [], 1)
            else Inr (info, [(''SPELLING'', key)], 0))
         else Inr (info, [], 0)))"

text \<open>Spelling normalization in descriptions: \<open>pattern.sub\<close> raises unless it gets a string.\<close>

definition spell_description :: "string \<Rightarrow> string" where
  "spell_description desc =
     foldl (\<lambda>new_desc (word, repl). sub_word word repl False new_desc) desc DESC_SPELLING"

definition rule_description_spelling :: "bool \<Rightarrow> string \<Rightarrow> entity \<Rightarrow> py_error + rule_result" where
  "rule_description_spelling fix key info =
     (case opt_get (description info) of
        JStr desc \<Rightarrow>
          (let new_desc = spell_description desc in
           if new_desc \<noteq> desc then
             (if fix then Inr (info\<lparr>description := Some (JStr new_desc)\<rparr>, [], 1)
              else Inr (info, [(''SPELLING_DESC'', key)], 0))
           else Inr (info, [], 0))
      | _ \<Rightarrow> Inl TypeError)"

text \<open>\<open>check_dcss\<close>: remove equipment tags from creatures, weapon tags from altars.\<close>

definition rule_strip_tags :: "string \<Rightarrow> string list \<Rightarrow> string \<Rightarrow> bool \<Rightarrow> string \<Rightarrow> entity \<Rightarrow> py_error + rule_result" where
  "rule_strip_tags kind strip_tags category fix key info =
     (if py_eq (opt_get (tile_type info)) (JStr kind) then
        (let removed = filter (\<lambda>t. in_names t strip_tags) (the_tags info) in
         if removed \<noteq> [] then
           (if fix
            then Inr (info\<lparr>tags := Some (filter (\<lambda>t. \<not> in_names t strip_tags) (the_tags info))\<rparr>, [], 1)
            else Inr (info, [(category, key)], 0))
         else Inr (info, [], 0))
      else Inr (info, [], 0))"

text \<open>\<open>check_dcss\<close>: altar alignment.  A tag fix is \<open>("add", tag)\<close> or \<open>("remove", tag)\<close>.\<close>

datatype tag_action = Add | Remove

fun apply_tag_fixes :: "(tag_action \<times> string) list \<Rightarrow> json list \<Rightarrow> json list" where
  "apply_tag_fixes [] ts = ts"
| "apply_tag_fixes ((action, tag) # rest) ts =
     (if action = Add \<and> \<not> py_in (JStr tag) ts then apply_tag_fixes rest (ts @ [JStr tag])
      else if action = Remove \<and> py_in (JStr tag) ts then apply_tag_fixes rest (py_remove (JStr tag) ts)
      else apply_tag_fixes rest ts)"

definition altar_tag_fixes :: "string \<Rightarrow> json list \<Rightarrow> (tag_action \<times> string) list" where
  "altar_tag_fixes nkey ts =
     (let fname = file_stem nkey;
          god_name = strip_number_suffix (strip_altar_prefix fname);
          god_base = (if god_name \<noteq> [] then hd (split_char (CHR ''_'') god_name) else []);
          should_holy = (god_base \<in> set HOLY_GODS \<or> god_name \<in> set HOLY_GODS);
          should_unholy = (god_base \<in> set UNHOLY_GODS \<or> god_name \<in> set UNHOLY_GODS)
      in (if \<not> py_in (JStr ''sacred'') ts then [(Add, ''sacred'')] else [])
       @ (if should_holy \<and> \<not> py_in (JStr ''holy'') ts then [(Add, ''holy'')] else [])
       @ (if \<not> should_holy \<and> py_in (JStr ''holy'') ts then [(Remove, ''holy'')] else [])
       @ (if should_unholy \<and> \<not> py_in (JStr ''unholy'') ts then [(Add, ''unholy'')] else [])
       @ (if \<not> should_unholy \<and> py_in (JStr ''unholy'') ts then [(Remove, ''unholy'')] else []))"

definition rule_altar_alignment :: "bool \<Rightarrow> string \<Rightarrow> entity \<Rightarrow> py_error + rule_result" where
  "rule_altar_alignment fix key info =
     (let nkey = norm_slashes key in
      if \<not> startswith nkey ''dungeon/altars'' then Inr (info, [], 0)
      else
        (let tag_fixes = altar_tag_fixes nkey (the_tags info) in
         if tag_fixes \<noteq> [] then
           (if fix then Inr (info\<lparr>tags := Some (apply_tag_fixes tag_fixes (the_tags info))\<rparr>, [], 1)
            else Inr (info, [(''ALTAR_ALIGN'', key)], 0))
         else Inr (info, [], 0)))"

text \<open>\<open>check_dcss\<close>: tags expected from the directory of the key.\<close>

fun append_missing :: "string list \<Rightarrow> json list \<Rightarrow> json list" where
  "append_missing [] ts = ts"
| "append_missing (t # rest) ts =
     (if \<not> py_in (JStr t) ts then append_missing rest (ts @ [JStr t]) else append_missing rest ts)"

fun dir_rule_loop :: "bool \<Rightarrow> string \<Rightarrow> (string \<times> string list) list \<Rightarrow> rule_result \<Rightarrow> rule_result" where
  "dir_rule_loop fix key [] acc = acc"
| "dir_rule_loop fix key ((prefix, expected) # rest) (info, issues, fixes) =
     (if startswith (norm_slashes key) prefix then
        (let tt = (case tile_type info of None \<Rightarrow> JStr [] | Some v \<Rightarrow> v);
             missing = filter (\<lambda>t. \<not> py_in (JStr t) (the_tags info) \<and> \<not> py_eq (JStr t) tt) expected in
         if missing \<noteq> [] then
           (if fix
            then dir_rule_loop fix key rest
                   (info\<lparr>tags := Some (append_missing missing (the_tags info))\<rparr>, issues, fixes + 1)
            else dir_rule_loop fix key rest (info, issues @ [(''DIR_MISMATCH'', key)], fixes))
         else dir_rule_loop fix key rest (info, issues, fixes))
      else dir_rule_loop fix key rest (info, issues, fixes))"

definition rule_directory_tags :: "bool \<Rightarrow> string \<Rightarrow> entity \<Rightarrow> py_error + rule_result" where
  "rule_directory_tags fix key info = Inr (dir_rule_loop fix key DIR_EXPECTED_TAGS (info, [], 0))"

text \<open>The checks that only report: tag count and description length.\<close>

definition rule_tag_count :: "bool \<Rightarrow> string \<Rightarrow> entity \<Rightarrow> py_error + rule_result" where
  "rule_tag_count fix key info =
     (let n = length (the_tags info) in
      if n < 3 then Inr (info, [(''FEW_TAGS'', key)], 0)
      else if n > 10 then Inr (info, [(''MANY_TAGS'', key)], 0)
      else Inr (info, [], 0))"

definition rule_description_length :: "bool \<Rightarrow> string \<Rightarrow> entity \<Rightarrow> py_error + rule_result" where
  "rule_description_length fix key info =
     (case opt_get (description info) of
        JStr desc \<Rightarrow>
          (if length desc < 30 then Inr (info, [(''SHORT_DESC'', key)], 0)
           else if length desc > 300 then Inr (info, [(''LONG_DESC'', key)], 0)
           else Inr (info, [], 0))
      | _ \<Rightarrow> Inl TypeError)"

subsection \<open>The loops over the enriched sprites\<close>

text \<open>
  \<open>for key, info in enriched.items()\<close> with one rule: the sprite is changed in place,
  the issues and the fix counter grow, and an exception ends the pass with the state
  reached.
\<close>

record check_acc =
  c_sprites :: catalog
  c_issues :: "issue list"
  c_fixes :: nat

fun for_enriched :: "(string \<Rightarrow> entity \<Rightarrow> py_error + rule_result) \<Rightarrow> string list \<Rightarrow> check_acc \<Rightarrow> py_error option \<times> check_acc" where
  "for_enriched rule [] acc = (None, acc)"
| "for_enriched rule (key # keys) acc =
     (case map_of (c_sprites acc) key of
        None \<Rightarrow> for_enriched rule keys acc
      | Some info \<Rightarrow>
          (case rule key info of
             Inl err \<Rightarrow> (Some err, acc)
           | Inr (info', issues, n) \<Rightarrow>
               for_enriched rule keys
                 \<lparr>c_sprites = dict_set (c_sprites acc) key info',
                  c_issues = c_issues acc @ issues,
                  c_fixes = c_fixes acc + n\<rparr>))"

text \<open>The rules in the order in which \<open>check_atlas\<close> runs them, each over all sprites.\<close>

definition rule_list :: "bool \<Rightarrow> bool \<Rightarrow> (string \<Rightarrow> entity \<Rightarrow> py_error + rule_result) list" where
  "rule_list dcss fix =
     [rule_tile_type_in_tags fix, rule_tag_spelling fix, rule_description_spelling fix]
     @ (if dcss then
          [rule_strip_tags ''creature'' CREATURE_STRIP_TAGS ''CREATURE_EQUIP_TAG'' fix,
           rule_strip_tags ''altar'' ALTAR_STRIP_TAGS ''ALTAR_EQUIP_TAG'' fix,
           rule_altar_alignment fix, rule_directory_tags fix]
        else [])
     @ [rule_tag_count fix, rule_description_length fix]"

fun run_rules :: "(string \<Rightarrow> entity \<Rightarrow> py_error + rule_result) list \<Rightarrow> string list \<Rightarrow> check_acc \<Rightarrow> py_error option \<times> check_acc" where
  "run_rules [] keys acc = (None, acc)"
| "run_rules (rule # rules) keys acc =
     (case for_enriched rule keys acc of
        (Some err, acc') \<Rightarrow> (Some err, acc')
      | (None, acc') \<Rightarrow> run_rules rules keys acc')"

text \<open>
  Duplicate descriptions: the keys are grouped by description; a group of several keys
  whose base names differ is reported under the joined keys.
\<close>

fun desc_map_append :: "(json \<times> string list) list \<Rightarrow> json \<Rightarrow> string \<Rightarrow> (json \<times> string list) list" where
  "desc_map_append [] d key = [(d, [key])]"
| "desc_map_append ((d', ks) # m) d key =
     (if d' = d then (d', ks @ [key]) # m else (d', ks) # desc_map_append m d key)"

definition duplicate_issues :: "string list \<Rightarrow> catalog \<Rightarrow> issue list" where
  "duplicate_issues keys cat =
     (let desc_map = foldl (\<lambda>m key. case map_of cat key of
                                       None \<Rightarrow> m
                                     | Some info \<Rightarrow> desc_map_append m (opt_get (description info)) key)
                       [] keys
      in concat (map (\<lambda>(d, ks).
                   if length ks > 1
                      \<and> length (remdups (map (\<lambda>k. strip_number_suffix (file_stem k)) ks)) > 1
                   then [(''DUPE_DESC'', join_with '', '' ks)] else [])
                 desc_map))"

subsection \<open>check\_atlas\<close>

text \<open>
  The result of \<open>check_atlas\<close>: the files, the backups made by \<open>backup_index\<close> (each a
  copy of the output file under a timestamped name), the number of times the catalog
  file was written, the catalog in memory at the end, the issues, the fixes counted, and
  the exception that ended the run, if one did.
\<close>

record check_result =
  r_disk :: files
  r_backups :: "catalog list"
  r_writes :: nat
  r_memory :: "catalog option"
  r_issues :: "issue list"
  r_fixes :: nat
  r_error :: "py_error option"

definition check_atlas :: "config \<Rightarrow> bool \<Rightarrow> files \<Rightarrow> catalog list \<Rightarrow> check_result" where
  "check_atlas cfg fix fs backups =
     (case fs (output_path cfg) of
        None \<Rightarrow>
          \<lparr>r_disk = fs, r_backups = backups, r_writes = 0, r_memory = None,
           r_issues = [], r_fixes = 0, r_error = None\<rparr>
      | Some data \<Rightarrow>
          (let backups' = (if fix then backups @ [data] else backups);
               enriched = filter (\<lambda>key. case map_of data key of
                                           None \<Rightarrow> False
                                         | Some info \<Rightarrow> is_enriched info) (map fst data)
           in
           if enriched = [] then
             \<lparr>r_disk = fs, r_backups = backups', r_writes = 0, r_memory = Some data,
              r_issues = [], r_fixes = 0, r_error = None\<rparr>
           else
             (case run_rules (rule_list (dcss_checks cfg) fix) enriched
                     \<lparr>c_sprites = data, c_issues = [], c_fixes = 0\<rparr> of
                (Some err, acc) \<Rightarrow>
                  \<lparr>r_disk = fs, r_backups = backups', r_writes = 0,
                   r_memory = Some (c_sprites acc),
                   r_issues = c_issues acc, r_fixes = c_fixes acc, r_error = Some err\<rparr>
              | (None, acc) \<Rightarrow>
                  (let issues = c_issues acc @ duplicate_issues enriched (c_sprites acc) in
                   if fix \<and> c_fixes acc \<noteq> 0 then
                     \<lparr>r_disk = fs(output_path cfg \<mapsto> c_sprites acc), r_backups = backups',
                      r_writes = 1, r_memory = Some (c_sprites acc),
                      r_issues = issues, r_fixes = c_fixes acc, r_error = None\<rparr>
                   else
                     \<lparr>r_disk = fs, r_backups = backups', r_writes = 0,
                      r_memory = Some (c_sprites acc),
                      r_issues = issues, r_fixes = c_fixes acc, r_error = None\<rparr>))))"

text \<open>A sprite of plate armour, its tag spelled the American way.\<close>

definition armour_catalog :: catalog where
  "armour_catalog =
     [(''item/plate_armour.png'',
       \<lparr>description = Some (JStr ''A suit of polished steel plate armour on a stand''),
        tags = Some [JStr ''armor'', JStr ''metal'', JStr ''equipment''],
        tile_type = Some (JStr ''armour'')\<rparr>)]"

definition kenney_config :: config where
  "kenney_config =
     \<lparr>index_path = ''kenney_atlas_index.json'', output_path = ''kenney_atlas_index.json'',
      dcss_checks = False\<rparr>"

definition armour_files :: files where
  "armour_files = (\<lambda>path. if path = ''kenney_atlas_index.json'' then Some armour_catalog else None)"

text \<open>A rule that only reports: it leaves every sprite as it is and counts no fix.\<close>

definition reports_only :: "(string \<Rightarrow> entity \<Rightarrow> py_error + rule_result) \<Rightarrow> bool" where
  "reports_only rule = (\<forall>key info info' issues n. rule key info = Inr (info', issues, n) \<longrightarrow> info' = info \<and> n = 0)"

text \<open>
  A player sprite of a DCSS atlas, typed as a creature: one rule removes the tag
  \<open>player\<close> from creatures, another adds it to every sprite under \<open>player/\<close>.
\<close>

definition player_catalog :: catalog where
  "player_catalog =
     [(''player/base/human_m.png'',
       \<lparr>description = Some (JStr ''A human adventurer in a plain brown tunic''),
        tags = Some [JStr ''humanoid'', JStr ''player'', JStr ''character''],
        tile_type = Some (JStr ''creature'')\<rparr>)]"

definition utumno_config :: config where
  "utumno_config =
     \<lparr>index_path = ''dcss_utumno_index.json'', output_path = ''dcss_utumno_index_tagged.json'',
      dcss_checks = True\<rparr>"

definition player_files :: files where
  "player_files =
     (\<lambda>path. if path = ''dcss_utumno_index_tagged.json'' then Some player_catalog else None)"

section \<open>Properties of the batch planner\<close>

subsection \<open>Ranges and slices\<close>

lemma nat_ceil_div:
  fixes n b :: nat
  assumes "0 < b"
  shows "(n + b - 1) div b = (if n mod b = 0 then n div b else Suc (n div b))"
proof -
  define q r where "q = n div b" and "r = n mod b"
  have n: "n = q * b + r" and r: "r < b"
    using assms by (simp_all add: q_def r_def)
  show ?thesis
  proof (cases "r = 0")
    case True
    then have "n + b - 1 = q * b + (b - 1)" using n assms by simp
    then have "(n + b - 1) div b = q + (b - 1) div b"
      using assms by (simp only: div_mult_self3)
    then show ?thesis using True assms by (simp add: q_def r_def)
  next
    case False
    then have "n + b - 1 = q * b + (b + (r - 1))" using n assms by simp
    then have "(n + b - 1) div b = q + (b + (r - 1)) div b"
      using assms by (simp only: div_mult_self3)
    moreover have "(b + (r - 1)) div b = 1"
    proof -
      have "(b + (r - 1)) div b = (r - 1) div b + 1"
        using assms by (simp only: div_add_self1)
      moreover have "(r - 1) div b = 0" using r by simp
      ultimately show ?thesis by simp
    qed
    ultimately show ?thesis using False by (simp add: q_def r_def)
  qed
qed

lemma ceil_div_nat:
  fixes n b :: nat
  assumes "0 < b"
  shows "\<lceil>real n / real b\<rceil> = int ((n + b - 1) div b)"
proof -
  have "\<lceil>real n / real b\<rceil> = \<lceil>of_int (int n) / (of_int (int b) :: real)\<rceil>" by simp
  also have "\<dots> = - (- int n div int b)" by (rule ceiling_divide_eq_div)
  also have "\<dots> = (if int n mod int b = 0 then int n div int b else int n div int b + 1)"
    using assms by (simp add: zdiv_zminus1_eq_if)
  also have "\<dots> = int (if n mod b = 0 then n div b else Suc (n div b))"
    by (simp add: zdiv_int zmod_int [symmetric] del: of_nat_mod of_nat_div)
  also have "\<dots> = int ((n + b - 1) div b)"
    using assms by (simp only: nat_ceil_div)
  finally show ?thesis .
qed

lemma length_range_from:
  "0 < step \<Longrightarrow> length (range_from i stop step) = (stop - i + step - 1) div step"
proof (induction i stop step rule: range_from.induct)
  case (1 i stop step)
  show ?case
  proof (cases "stop \<le> i")
    case True
    with 1(2) show ?thesis by (simp add: range_from.simps)
  next
    case False
    then have "length (range_from i stop step) = Suc ((stop - (i + step) + step - 1) div step)"
      using 1 by (subst range_from.simps) simp
    also have "\<dots> = (stop - i + step - 1) div step"
    proof (cases "stop \<le> i + step")
      case True
      then have "stop - i + step - 1 = step + (stop - i - 1)" and "stop - i - 1 < step"
        using False 1(2) by auto
      then have "(stop - i + step - 1) div step = 1"
        using 1(2) by (simp only: div_add_self1) simp
      then show ?thesis using True 1(2) by simp
    next
      case False
      then have "stop - i + step - 1 = step + (stop - (i + step) + step - 1)" by simp
      then have "(stop - i + step - 1) div step = (stop - (i + step) + step - 1) div step + 1"
        using 1(2) by (simp only: div_add_self1)
      then show ?thesis by simp
    qed
    finally show ?thesis .
  qed
qed

lemma range_from_less: "x \<in> set (range_from i stop step) \<Longrightarrow> x < stop"
proof (induction i stop step rule: range_from.induct)
  case (1 i stop step)
  from "1.prems" have ne: "\<not> (step = 0 \<or> stop \<le> i)"
    by (subst (asm) range_from.simps) (auto split: if_splits)
  with "1.prems" have "x = i \<or> x \<in> set (range_from (i + step) stop step)"
    by (subst (asm) range_from.simps) auto
  with ne "1.IH" show ?case by auto
qed

lemma nth_range_from:
  "j < length (range_from i stop step) \<Longrightarrow> range_from i stop step ! j = i + j * step"
proof (induction i stop step arbitrary: j rule: range_from.induct)
  case (1 i stop step)
  from "1.prems" have ne: "\<not> (step = 0 \<or> stop \<le> i)"
    by (subst (asm) range_from.simps) (auto split: if_splits)
  then have unf: "range_from i stop step = i # range_from (i + step) stop step"
    by (subst range_from.simps) simp
  show ?case
  proof (cases j)
    case 0
    then show ?thesis by (simp add: unf)
  next
    case (Suc j')
    with "1.prems" have "j' < length (range_from (i + step) stop step)"
      by (simp add: unf)
    with "1.IH" [OF ne] have "range_from (i + step) stop step ! j' = i + step + j' * step"
      by simp
    then show ?thesis by (simp add: unf Suc)
  qed
qed

lemma concat_range_from:
  "0 < step \<Longrightarrow>
     concat (map (\<lambda>s. take step (drop s xs)) (range_from i (length xs) step)) = drop i xs"
proof (induction i "length xs" step rule: range_from.induct)
  case (1 i step)
  show ?case
  proof (cases "length xs \<le> i")
    case True
    then show ?thesis by (simp add: range_from.simps)
  next
    case False
    then have "concat (map (\<lambda>s. take step (drop s xs)) (range_from i (length xs) step))
        = take step (drop i xs) @ drop (i + step) xs"
      using 1 by (subst range_from.simps) simp
    also have "\<dots> = drop i xs"
      by (metis append_take_drop_id drop_drop add.commute)
    finally show ?thesis .
  qed
qed

lemma length_batches_of:
  "1 \<le> B \<Longrightarrow> int (length (batches_of keys B)) = \<lceil>real (length keys) / real_of_int B\<rceil>"
proof -
  assume B: "1 \<le> B"
  then have "real_of_int B = real (nat B)" by simp
  moreover have "length (batches_of keys B) = (length keys + nat B - 1) div nat B"
    using B by (simp add: batches_of_def length_range_from)
  moreover have "0 < nat B" using B by simp
  ultimately show ?thesis
    by (simp only: ceil_div_nat [of "nat B" "length keys"])
qed

lemma concat_batches_of: "1 \<le> B \<Longrightarrow> concat (batches_of keys B) = keys"
  using concat_range_from [of "nat B" keys 0] by (simp add: batches_of_def)

lemma nth_batches_of:
  assumes "1 \<le> B" and "i < length (batches_of keys B)"
  shows "batches_of keys B ! i = take (nat B) (drop (i * nat B) keys)"
    and "i * nat B < length keys"
proof -
  from assms have i: "i < length (range_from 0 (length keys) (nat B))"
    by (simp add: batches_of_def)
  then have nth: "range_from 0 (length keys) (nat B) ! i = i * nat B"
    by (simp add: nth_range_from)
  with i assms(1) show "batches_of keys B ! i = take (nat B) (drop (i * nat B) keys)"
    by (simp add: batches_of_def)
  from i have "range_from 0 (length keys) (nat B) ! i \<in> set (range_from 0 (length keys) (nat B))"
    by (rule nth_mem)
  with nth show "i * nat B < length keys"
    by (auto dest: range_from_less)
qed

lemma length_nth_batches_of:
  assumes "1 \<le> B" and "i < length (batches_of keys B)"
  shows "1 \<le> length (batches_of keys B ! i)"
    and "int (length (batches_of keys B ! i)) \<le> B"
    and "Suc i < length (batches_of keys B) \<Longrightarrow> int (length (batches_of keys B ! i)) = B"
proof -
  note n = nth_batches_of [OF assms]
  from n(2) have "0 < length keys - i * nat B" by simp
  moreover from assms(1) have "0 < nat B" by simp
  ultimately show "1 \<le> length (batches_of keys B ! i)"
    by (simp add: n(1) Suc_le_eq)
  from n assms(1) show "int (length (batches_of keys B ! i)) \<le> B" by simp
  assume "Suc i < length (batches_of keys B)"
  from nth_batches_of(2) [OF assms(1) this] have "i * nat B + nat B < length keys" by simp
  with n assms(1) show "int (length (batches_of keys B ! i)) = B" by simp
qed

subsection \<open>Grouping and ordering\<close>

lemma map_of_group_append:
  "map_of (group_append gs p k) q =
     (if q = p then Some ((case map_of gs p of None \<Rightarrow> [] | Some ks \<Rightarrow> ks) @ [k]) else map_of gs q)"
  by (induction gs p k rule: group_append.induct) auto

lemma fst_group_append:
  "map fst (group_append gs p k) = (if p \<in> fst ` set gs then map fst gs else map fst gs @ [p])"
  by (induction gs p k rule: group_append.induct) auto

lemma group_by_prefix_snoc:
  "group_by_prefix (ks @ [k]) = group_append (group_by_prefix ks) (prefix_of k) k"
  by (simp add: group_by_prefix_def)

lemma group_by_prefix_keys:
  "distinct (map fst (group_by_prefix ks)) \<and> fst ` set (group_by_prefix ks) = prefix_of ` set ks"
proof (induction ks rule: rev_induct)
  case Nil
  show ?case by (simp add: group_by_prefix_def)
next
  case (snoc k ks)
  from snoc have d: "distinct (map fst (group_by_prefix ks))"
    and s: "fst ` set (group_by_prefix ks) = prefix_of ` set ks" by auto
  have "map fst (group_by_prefix (ks @ [k])) =
      (if prefix_of k \<in> prefix_of ` set ks then map fst (group_by_prefix ks)
       else map fst (group_by_prefix ks) @ [prefix_of k])"
    by (simp add: group_by_prefix_snoc fst_group_append s)
  moreover have "set (map fst (group_by_prefix ks)) = prefix_of ` set ks"
    using s by simp
  ultimately have "distinct (map fst (group_by_prefix (ks @ [k])))"
    and "set (map fst (group_by_prefix (ks @ [k]))) = prefix_of ` set (ks @ [k])"
    using d by (auto simp del: set_map)
  then show ?case by simp
qed

lemma group_by_prefix_lookup:
  "map_of (group_by_prefix ks) p =
     (if p \<in> prefix_of ` set ks then Some (filter (\<lambda>k. prefix_of k = p) ks) else None)"
proof (induction ks rule: rev_induct)
  case Nil
  show ?case by (simp add: group_by_prefix_def)
next
  case (snoc k ks)
  have "p \<notin> prefix_of ` set ks \<Longrightarrow> filter (\<lambda>k. prefix_of k = p) ks = []" for p
    by (auto simp: filter_empty_conv)
  then show ?case
    using snoc by (auto simp: group_by_prefix_snoc map_of_group_append)
qed

lemma mset_filter_disj:
  "\<forall>x\<in>set xs. \<not> (P x \<and> Q x) \<Longrightarrow>
     mset (filter P xs) + mset (filter Q xs) = mset (filter (\<lambda>x. P x \<or> Q x) xs)"
  by (induction xs) auto

lemma sum_groups:
  "distinct ps \<Longrightarrow>
     (\<Sum>p\<leftarrow>ps. mset (filter (\<lambda>k. f k = p) xs)) = mset (filter (\<lambda>k. f k \<in> set ps) xs)"
proof (induction ps)
  case Nil
  show ?case by simp
next
  case (Cons p ps)
  then have "\<forall>x\<in>set xs. \<not> (f x = p \<and> f x \<in> set ps)" by auto
  from mset_filter_disj [OF this] Cons show ?case by simp
qed

lemma ordered_keys_eq:
  "ordered_keys todo =
     concat (map (\<lambda>p. sort (filter (\<lambda>k. prefix_of k = p) todo))
               (sort (map fst (group_by_prefix todo))))"
proof -
  have h: "(case map_of (group_by_prefix todo) p of None \<Rightarrow> [] | Some ks \<Rightarrow> sort ks)
       = sort (filter (\<lambda>k. prefix_of k = p) todo)"
    if "p \<in> set (sort (map fst (group_by_prefix todo)))" for p
    using that group_by_prefix_keys [of todo] by (auto simp: group_by_prefix_lookup)
  show ?thesis
    unfolding ordered_keys_def Let_def
    by (intro arg_cong [where f = concat] map_cong refl) (rule h)
qed

lemma mset_ordered_keys: "mset (ordered_keys todo) = mset todo"
proof -
  let ?ps = "map fst (group_by_prefix todo)"
  have d: "distinct ?ps" and s: "set ?ps = prefix_of ` set todo"
    using group_by_prefix_keys [of todo] by auto
  have "mset (ordered_keys todo) = (\<Sum>p\<leftarrow>sort ?ps. mset (filter (\<lambda>k. prefix_of k = p) todo))"
    by (simp add: ordered_keys_eq mset_concat comp_def)
  also have "\<dots> = mset (filter (\<lambda>k. prefix_of k \<in> set (sort ?ps)) todo)"
    using d by (intro sum_groups) simp
  also have "\<dots> = mset todo"
    using s by (simp add: filter_True del: set_map)
  finally show ?thesis .
qed

lemma sorted_groups:
  "sorted_wrt (<) ps \<Longrightarrow>
   sorted_wrt (\<lambda>a b. f a < f b \<or> (f a = f b \<and> a \<le> b))
     (concat (map (\<lambda>p. sort (filter (\<lambda>k. f k = p) xs)) ps))"
  for f :: "string \<Rightarrow> string"
proof (induction ps)
  case Nil
  show ?case by simp
next
  case (Cons p ps)
  have "sorted_wrt (\<lambda>a b. f a < f b \<or> (f a = f b \<and> a \<le> b)) (sort (filter (\<lambda>k. f k = p) xs))"
    using sorted_sort [of "filter (\<lambda>k. f k = p) xs"]
    by (rule sorted_wrt_mono_rel [rotated]) auto
  moreover have "sorted_wrt (\<lambda>a b. f a < f b \<or> (f a = f b \<and> a \<le> b))
      (concat (map (\<lambda>p. sort (filter (\<lambda>k. f k = p) xs)) ps))"
    using Cons by simp
  moreover have "f a < f b"
    if "a \<in> set (sort (filter (\<lambda>k. f k = p) xs))"
      and "b \<in> set (concat (map (\<lambda>p. sort (filter (\<lambda>k. f k = p) xs)) ps))" for a b
  proof -
    from that(1) have "f a = p" by simp
    moreover from that(2) obtain q where "q \<in> set ps" "f b = q" by auto
    moreover from Cons.prems have "\<forall>q\<in>set ps. p < q" by simp
    ultimately show ?thesis by blast
  qed
  ultimately show ?case
    unfolding list.map concat.simps sorted_wrt_append by blast
qed

lemma sorted_ordered_keys:
  "sorted_wrt (\<lambda>a b. prefix_of a < prefix_of b \<or> (prefix_of a = prefix_of b \<and> a \<le> b))
     (ordered_keys todo)"
proof -
  have "distinct (map fst (group_by_prefix todo))"
    using group_by_prefix_keys [of todo] by auto
  then have "sorted_wrt (<) (sort (map fst (group_by_prefix todo)))"
    by (simp add: strict_sorted_iff)
  then show ?thesis
    unfolding ordered_keys_eq by (rule sorted_groups)
qed

lemma todo_keys_set:
  "set (todo_keys sprites) = {k. \<exists>info. map_of sprites k = Some info \<and> \<not> is_enriched info}"
  by (auto simp: todo_keys_def split: option.splits dest: map_of_SomeD)
    (metis domI dom_map_of_conv_image_fst image_eqI fst_conv)

lemma todo_keys_distinct: "distinct (map fst sprites) \<Longrightarrow> distinct (todo_keys sprites)"
  by (simp add: todo_keys_def)

lemma distinct_concat_unique_index:
  assumes "distinct (concat bs)" and "i < length bs" and "j < length bs"
    and "k \<in> set (bs ! i)" and "k \<in> set (bs ! j)"
  shows "i = j"
  using assms
proof (induction bs arbitrary: i j)
  case Nil
  then show ?case by simp
next
  case (Cons b bs)
  from Cons.prems(1) have d: "distinct (concat bs)"
    and disj: "set b \<inter> set (concat bs) = {}" by auto
  show ?case
  proof (cases i)
    case i0: 0
    show ?thesis
    proof (cases j)
      case 0
      with i0 show ?thesis by simp
    next
      case (Suc j')
      with Cons.prems have "k \<in> set b" "k \<in> set (concat bs)"
        using i0 by (auto intro: nth_mem)
      with disj show ?thesis by blast
    qed
  next
    case (Suc i')
    show ?thesis
    proof (cases j)
      case 0
      with Cons.prems have "k \<in> set b" "k \<in> set (concat bs)"
        using Suc by (auto intro: nth_mem)
      with disj show ?thesis by blast
    next
      case j: (Suc j')
      with Suc Cons.prems Cons.IH [OF d, of i' j'] show ?thesis by simp
    qed
  qed
qed

lemma plan_batches_unlimited:
  assumes "1 \<le> B"
  shows "plan_batches sprites B 0 = Inr (batches_of (ordered_keys (todo_keys sprites)) B)"
proof (cases "todo_keys sprites = []")
  case True
  then have "ordered_keys (todo_keys sprites) = []"
    using mset_ordered_keys [of "todo_keys sprites"] by simp
  then have "batches_of (ordered_keys (todo_keys sprites)) B = []"
    using assms by (simp add: batches_of_def range_from.simps)
  with True assms show ?thesis
    by (simp add: plan_batches_def)
next
  case False
  with assms show ?thesis
    by (simp add: plan_batches_def planned_keys_def)
qed

text \<open>
  Claim C1.  For a catalog with unique keys and a batch size \<open>B \<ge> 1\<close>, without a limit,
  the planner returns \<open>ceil(N / B)\<close> batches, \<open>N\<close> the number of sprites that are not
  enriched; every batch has at most \<open>B\<close> keys; the batches, one after the other, are the
  keys ordered by group prefix and, within a group, by key; the keys in the batches are
  exactly the keys of the sprites that are not enriched, and each is in exactly one batch.
\<close>

theorem planner_batches:
  assumes "distinct (map fst sprites)" and "1 \<le> B"
  shows "\<exists>bs. plan_batches sprites B 0 = Inr bs
    \<and> int (length bs) = \<lceil>real (length (todo_keys sprites)) / real_of_int B\<rceil>
    \<and> (\<forall>b\<in>set bs. int (length b) \<le> B)
    \<and> sorted_wrt (\<lambda>a b. prefix_of a < prefix_of b \<or> (prefix_of a = prefix_of b \<and> a \<le> b))
         (concat bs)
    \<and> set (concat bs) = {k. \<exists>info. map_of sprites k = Some info \<and> \<not> is_enriched info}
    \<and> distinct (concat bs)
    \<and> (\<forall>k\<in>set (concat bs). \<exists>!i. i < length bs \<and> k \<in> set (bs ! i))"
proof -
  define todo where "todo = todo_keys sprites"
  define bs where "bs = batches_of (ordered_keys todo) B"
  have plan: "plan_batches sprites B 0 = Inr bs"
    using plan_batches_unlimited [OF assms(2)] by (simp add: bs_def todo_def)
  have len_ord: "length (ordered_keys todo) = length todo"
    using mset_ordered_keys [of todo] by (metis size_mset)
  have len: "int (length bs) = \<lceil>real (length (todo_keys sprites)) / real_of_int B\<rceil>"
    using length_batches_of [OF assms(2), of "ordered_keys todo"] len_ord
    unfolding bs_def todo_def by simp
  have size: "\<forall>b\<in>set bs. int (length b) \<le> B"
  proof
    fix b assume "b \<in> set bs"
    then obtain i where "i < length bs" "b = bs ! i" by (auto simp: in_set_conv_nth)
    with length_nth_batches_of(2) [OF assms(2), of i "ordered_keys todo"]
    show "int (length b) \<le> B" by (simp add: bs_def)
  qed
  have cc: "concat bs = ordered_keys todo"
    using concat_batches_of [OF assms(2)] by (simp add: bs_def)
  have srt: "sorted_wrt (\<lambda>a b. prefix_of a < prefix_of b \<or> (prefix_of a = prefix_of b \<and> a \<le> b))
         (concat bs)"
    unfolding cc by (rule sorted_ordered_keys)
  have st: "set (concat bs) = {k. \<exists>info. map_of sprites k = Some info \<and> \<not> is_enriched info}"
    unfolding cc using mset_ordered_keys [of todo] todo_keys_set [of sprites]
    by (metis set_mset_mset todo_def)
  have dist: "distinct (concat bs)"
    unfolding cc using mset_ordered_keys [of todo] todo_keys_distinct [OF assms(1)]
    by (metis mset_eq_imp_distinct_iff todo_def)
  have uniq: "\<forall>k\<in>set (concat bs). \<exists>!i. i < length bs \<and> k \<in> set (bs ! i)"
  proof
    fix k assume "k \<in> set (concat bs)"
    then obtain b where "b \<in> set bs" "k \<in> set b" by auto
    then obtain i where i: "i < length bs" "k \<in> set (bs ! i)"
      by (auto simp: in_set_conv_nth)
    show "\<exists>!i. i < length bs \<and> k \<in> set (bs ! i)"
    proof (rule ex1I [of _ i])
      show "i < length bs \<and> k \<in> set (bs ! i)" using i by simp
    next
      fix j assume "j < length bs \<and> k \<in> set (bs ! j)"
      with i dist show "j = i"
        using distinct_concat_unique_index [of bs j i k] by simp
    qed
  qed
  from plan len size srt st dist uniq show ?thesis
    unfolding todo_def by blast
qed

theorem planner_batches_witness:
  "distinct (map fst example_catalog) \<and> (1::int) \<le> 2
   \<and> plan_batches example_catalog 2 0 =
       Inr [[''dungeon/doors/a.png'', ''dungeon/doors/b.png''],
            [''dungeon/doors/c.png'', ''dungeon/walls/w.png'']]
   \<and> \<lceil>real (length (todo_keys example_catalog)) / real_of_int 2\<rceil> = 2"
proof -
  have h1: "distinct (map fst example_catalog)" by code_simp
  have h2: "(1::int) \<le> 2" by simp
  have ev: "plan_batches example_catalog 2 0 =
       Inr [[''dungeon/doors/a.png'', ''dungeon/doors/b.png''],
            [''dungeon/doors/c.png'', ''dungeon/walls/w.png'']]"
    by code_simp
  from planner_batches [OF h1 h2] obtain bs where
    "plan_batches example_catalog 2 0 = Inr bs"
    "int (length bs) = \<lceil>real (length (todo_keys example_catalog)) / real_of_int 2\<rceil>"
    by blast
  with ev have "\<lceil>real (length (todo_keys example_catalog)) / real_of_int 2\<rceil> = 2"
    by simp
  with h1 h2 ev show ?thesis by simp
qed

text \<open>
  Claim C9, as stated, fails: the planner slices the whole ordered key list, not each
  group.  With batch size 2 the second batch of the example holds the last key of group
  \<open>dungeon/doors\<close> and the key of group \<open>dungeon/walls\<close>.
\<close>

theorem batch_spans_two_groups:
  "plan_batches example_catalog 2 0 =
       Inr [[''dungeon/doors/a.png'', ''dungeon/doors/b.png''],
            [''dungeon/doors/c.png'', ''dungeon/walls/w.png'']]
   \<and> prefix_of ''dungeon/doors/c.png'' = ''dungeon/doors''
   \<and> prefix_of ''dungeon/walls/w.png'' = ''dungeon/walls''"
  by code_simp

text \<open>
  Claim C9, amended.  For a batch size \<open>B \<ge> 1\<close>, without a limit, batch number \<open>i\<close>
  (from 0) is the slice \<open>[i * B : i * B + B]\<close> of the whole ordered key list (groups in
  prefix order, one after the other): it is never empty, has at most \<open>B\<close> keys, and has
  exactly \<open>B\<close> keys unless it is the last batch of the run.  Group boundaries play no
  part in the slicing.
\<close>

theorem batches_slice_whole_list:
  assumes "1 \<le> B"
  shows "\<exists>bs. plan_batches sprites B 0 = Inr bs
    \<and> concat bs = ordered_keys (todo_keys sprites)
    \<and> (\<forall>i<length bs.
          bs ! i = take (nat B) (drop (i * nat B) (ordered_keys (todo_keys sprites)))
          \<and> 1 \<le> length (bs ! i) \<and> int (length (bs ! i)) \<le> B
          \<and> (Suc i < length bs \<longrightarrow> int (length (bs ! i)) = B))"
proof -
  define bs where "bs = batches_of (ordered_keys (todo_keys sprites)) B"
  have "plan_batches sprites B 0 = Inr bs"
    using plan_batches_unlimited [OF assms] by (simp add: bs_def)
  moreover have "concat bs = ordered_keys (todo_keys sprites)"
    using concat_batches_of [OF assms] by (simp add: bs_def)
  moreover have "\<forall>i<length bs.
          bs ! i = take (nat B) (drop (i * nat B) (ordered_keys (todo_keys sprites)))
          \<and> 1 \<le> length (bs ! i) \<and> int (length (bs ! i)) \<le> B
          \<and> (Suc i < length bs \<longrightarrow> int (length (bs ! i)) = B)"
    unfolding bs_def
    using nth_batches_of(1) [OF assms] length_nth_batches_of [OF assms]
    by blast
  ultimately show ?thesis by blast
qed

theorem batches_slice_whole_list_witness:
  "(1::int) \<le> 2
   \<and> plan_batches example_catalog 2 0 =
       Inr [[''dungeon/doors/a.png'', ''dungeon/doors/b.png''],
            [''dungeon/doors/c.png'', ''dungeon/walls/w.png'']]
   \<and> ordered_keys (todo_keys example_catalog) =
       [''dungeon/doors/a.png'', ''dungeon/doors/b.png'',
        ''dungeon/doors/c.png'', ''dungeon/walls/w.png'']"
proof -
  have h: "(1::int) \<le> 2" by simp
  have ev: "plan_batches example_catalog 2 0 =
       Inr [[''dungeon/doors/a.png'', ''dungeon/doors/b.png''],
            [''dungeon/doors/c.png'', ''dungeon/walls/w.png'']]"
    by code_simp
  from batches_slice_whole_list [OF h, of example_catalog] obtain bs where
    "plan_batches example_catalog 2 0 = Inr bs"
    "concat bs = ordered_keys (todo_keys example_catalog)"
    by blast
  with ev have "ordered_keys (todo_keys example_catalog) =
       [''dungeon/doors/a.png'', ''dungeon/doors/b.png'',
        ''dungeon/doors/c.png'', ''dungeon/walls/w.png'']"
    by auto
  with h ev show ?thesis by simp
qed

section \<open>Properties of save\_index\<close>

lemma foldl_writes:
  "foldl apply_file_op (Some p) (map Write cs) = Some (p @ concat cs)"
  by (induction cs arbitrary: p) auto

lemma save_index_upto_Suc:
  "save_index_upto (Suc k) chunks file = Some (concat (take k (chunks @ [''\<newline>''])))"
proof -
  have "save_index_ops chunks = Open_truncate # map Write (chunks @ [''\<newline>''])"
    by (simp add: save_index_ops_def)
  then have "take (Suc k) (save_index_ops chunks) = Open_truncate # map Write (take k (chunks @ [''\<newline>'']))"
    by (simp only: take_Suc_Cons take_map)
  then show ?thesis
    by (simp add: save_index_upto_def foldl_writes)
qed

lemma save_index_full: "save_index chunks file = Some (concat chunks @ ''\<newline>'')"
proof -
  have "save_index_ops chunks = Open_truncate # map Write (chunks @ [''\<newline>''])"
    by (simp add: save_index_ops_def)
  then show ?thesis
    by (simp add: save_index_def foldl_writes)
qed

text \<open>
  Claim C2, as stated, fails: the target is opened for writing in place, which empties
  it before anything is written.  A save of the document \<open>{}\<close> over a file holding
  \<open>[1]\<close> that stops right after the open leaves an empty file: neither the old text
  nor the new one.
\<close>

theorem save_index_torn_write:
  "save_index_upto 1 [''{}''] (Some ''[1]'') = Some []
   \<and> save_index [''{}''] (Some ''[1]'') = Some ''{}\<newline>''"
  by (simp add: save_index_upto_def save_index_def save_index_ops_def)

text \<open>
  Claim C2, amended.  \<open>save_index\<close> writes in place.  A save that runs to its end
  leaves exactly the encoded document and a newline.  A save cut short before the open
  leaves the file as it was; cut short anywhere after the open it leaves a prefix of the
  new text (the chunks written so far), and the old text is gone.
\<close>

theorem save_index_in_place:
  "save_index chunks file = Some (concat chunks @ ''\<newline>'')
   \<and> save_index_upto 0 chunks file = file
   \<and> (0 < n \<longrightarrow>
        (\<exists>p q. save_index_upto n chunks file = Some p \<and> p @ q = concat chunks @ ''\<newline>''))
   \<and> (length chunks + 2 \<le> n \<longrightarrow> save_index_upto n chunks file = save_index chunks file)"
proof -
  have a: "save_index_upto 0 chunks file = file"
    by (simp add: save_index_upto_def)
  have b: "\<exists>p q. save_index_upto n chunks file = Some p \<and> p @ q = concat chunks @ ''\<newline>''"
    if "0 < n"
  proof -
    from that obtain k where n: "n = Suc k" by (cases n) auto
    have "concat (take k (chunks @ [''\<newline>''])) @ concat (drop k (chunks @ [''\<newline>'']))
          = concat (chunks @ [''\<newline>''])"
      by (simp only: concat_append [symmetric] append_take_drop_id)
    then show ?thesis
      unfolding n save_index_upto_Suc by auto
  qed
  have c: "save_index_upto n chunks file = save_index chunks file" if "length chunks + 2 \<le> n"
    using that by (simp add: save_index_upto_def save_index_def save_index_ops_def)
  from a b c save_index_full show ?thesis by blast
qed

theorem save_index_in_place_witness:
  "(0::nat) < 2
   \<and> save_index_upto 2 [''{'', ''}''] (Some ''[1]'') = Some ''{''
   \<and> save_index [''{'', ''}''] (Some ''[1]'') = Some ''{}\<newline>''"
proof -
  have "save_index_upto 2 [''{'', ''}''] (Some ''[1]'') = Some ''{''"
    by (simp add: save_index_upto_def save_index_ops_def)
  moreover from save_index_in_place [of "[''{'', ''}'']" "Some ''[1]''" 2]
  have "save_index [''{'', ''}''] (Some ''[1]'') = Some ''{}\<newline>''"
    by simp
  ultimately show ?thesis by simp
qed

section \<open>Properties of parse\_ai\_response\<close>












section \<open>Properties of the merge loop\<close>

lemma map_of_update_sprite:
  "map_of (update_sprite k f sp) k' = (if k' = k then map_option f (map_of sp k) else map_of sp k')"
  by (induction sp) (auto simp: update_sprite_def)

lemma fst_update_sprite: "map fst (update_sprite k f sp) = map fst sp"
  by (induction sp) (auto simp: update_sprite_def)

lemma merge_keys: "map fst (fst (merge_enrichments ks es sp a)) = map fst sp"
  by (induction ks es sp a rule: merge_enrichments.induct)
    (auto simp: fst_update_sprite split: json.splits)

lemma merge_frame:
  "k \<notin> set (take (length es) ks) \<Longrightarrow> map_of (fst (merge_enrichments ks es sp a)) k = map_of sp k"
  by (induction ks es sp a rule: merge_enrichments.induct)
    (auto simp: map_of_update_sprite split: json.splits)

lemma merge_positional:
  "distinct ks \<Longrightarrow> i < length ks \<Longrightarrow> i < length es \<Longrightarrow>
     map_of (fst (merge_enrichments ks es sp a)) (ks ! i)
       = map_option (entry_effect (es ! i)) (map_of sp (ks ! i))"
proof (induction ks es sp a arbitrary: i rule: merge_enrichments.induct)
  case (1 entries sp applied)
  then show ?case by simp
next
  case (2 key keys sp applied)
  then show ?case by simp
next
  case (3 key keys entry entries sp applied)
  from "3.prems" have d: "distinct keys" and nk: "key \<notin> set keys" by auto
  show ?case
  proof (cases i)
    case 0
    have "key \<notin> set (take (length entries) keys)"
      using nk by (auto dest: in_set_takeD)
    then have fr: "map_of (fst (merge_enrichments keys entries sp' a')) key = map_of sp' key" for sp' a'
      by (rule merge_frame)
    show ?thesis
      by (cases entry) (simp_all add: 0 fr entry_effect_def map_of_update_sprite option.map_ident)
  next
    case (Suc j)
    with "3.prems" have j: "j < length keys" "j < length entries" by auto
    then have ne: "keys ! j \<noteq> key" using nk by (metis nth_mem)
    show ?thesis
      using "3.IH" d j ne
      by (cases entry) (simp_all add: Suc map_of_update_sprite)
  qed
qed

lemma merge_excess:
  "length ks \<le> length es \<Longrightarrow> merge_enrichments ks (es @ extra) sp a = merge_enrichments ks es sp a"
  by (induction ks es sp a rule: merge_enrichments.induct) (auto split: json.splits)

lemma merge_nil_entries: "merge_enrichments ks [] sp a = (sp, a)"
  by (cases ks) auto

section \<open>Properties of the enrichment run\<close>

lemma try_attempts_fail:
  "(\<forall>i<n. attempt_fails ld (answers (i0 + i))) \<Longrightarrow> try_attempts ld answers i0 n = Inr None"
proof (induction n arbitrary: i0)
  case 0
  show ?case by simp
next
  case (Suc n)
  from Suc.prems have "attempt_fails ld (answers (i0 + 0))" by blast
  then have a: "attempt_result ld (answers i0) = Inr None"
    by (auto simp: attempt_fails_def attempt_result_def split: attempt.splits)
  have "\<forall>i<n. attempt_fails ld (answers (Suc i0 + i))"
    using Suc.prems by auto
  from Suc.IH [OF this] a show ?case by simp
qed

lemma try_attempts_cong:
  "(\<forall>i<n. answers' (i0 + i) = answers (i0 + i)) \<Longrightarrow>
     try_attempts ld answers' i0 n = try_attempts ld answers i0 n"
proof (induction n arbitrary: i0)
  case 0
  show ?case by simp
next
  case (Suc n)
  from Suc.prems have "answers' (i0 + 0) = answers (i0 + 0)" by blast
  then have a: "answers' i0 = answers i0" by simp
  have "\<forall>i<n. answers' (Suc i0 + i) = answers (Suc i0 + i)"
    using Suc.prems by auto
  from Suc.IH [OF this] a show ?case by (simp split: sum.splits option.splits)
qed

lemma process_batch_skipped:
  assumes "\<forall>i<max_retries. attempt_fails (json_decoder e) (oracle_reply e n i)"
  shows "process_batch e cfg n b st = Inr st"
proof -
  from assms have "try_attempts (json_decoder e) (oracle_reply e n) 0 max_retries = Inr None"
    by (intro try_attempts_fail) simp
  then show ?thesis by (simp add: process_batch_def Let_def)
qed

lemma process_batch_effect:
  assumes "process_batch e cfg n b st = Inr st'"
  shows "map fst (in_memory st') = map fst (in_memory st)"
    and "k \<notin> set b \<Longrightarrow> map_of (in_memory st') k = map_of (in_memory st) k"
    and "(disk st' = disk st \<and> in_memory st' = in_memory st \<and> saves st' = saves st)
         \<or> (disk st' = (disk st)(output_path cfg \<mapsto> in_memory st') \<and> saves st' = Suc (saves st))"
proof -
  have *: "st' = st \<or> (\<exists>es. st' = \<lparr>in_memory = fst (merge_enrichments (filter (loadable e) b) es (in_memory st) 0),
                   disk = (disk st)(output_path cfg \<mapsto> fst (merge_enrichments (filter (loadable e) b) es (in_memory st) 0)),
                   saves = Suc (saves st)\<rparr>)"
    using assms by (auto simp: process_batch_def Let_def split: if_splits sum.splits option.splits)
  from * show "map fst (in_memory st') = map fst (in_memory st)"
    by (auto simp: merge_keys)
  from * show "(disk st' = disk st \<and> in_memory st' = in_memory st \<and> saves st' = saves st)
         \<or> (disk st' = (disk st)(output_path cfg \<mapsto> in_memory st') \<and> saves st' = Suc (saves st))"
    by auto
  assume k: "k \<notin> set b"
  then have "k \<notin> set (take (length es) (filter (loadable e) b))" for es
    by (auto dest: in_set_takeD)
  then have "map_of (fst (merge_enrichments (filter (loadable e) b) es (in_memory st) 0)) k
      = map_of (in_memory st) k" for es
    by (rule merge_frame)
  with * show "map_of (in_memory st') k = map_of (in_memory st) k"
    by auto
qed

lemma process_batches_effect:
  assumes "process_batches e cfg n0 bs st = (err, st')"
  shows "map fst (in_memory st') = map fst (in_memory st)
    \<and> ((\<forall>j<length bs. k \<in> set (bs ! j) \<longrightarrow>
            (\<forall>i<max_retries. attempt_fails (json_decoder e) (oracle_reply e (n0 + j) i)))
        \<longrightarrow> map_of (in_memory st') k = map_of (in_memory st) k)
    \<and> ((disk st' = disk st \<and> in_memory st' = in_memory st)
        \<or> disk st' = (disk st)(output_path cfg \<mapsto> in_memory st'))"
  using assms
proof (induction bs arbitrary: n0 st)
  case Nil
  then show ?case by simp
next
  case (Cons b bs)
  show ?case
  proof (cases "process_batch e cfg n0 b st")
    case (Inl x)
    with Cons.prems show ?thesis by simp
  next
    case (Inr st1)
    with Cons.prems have rest: "process_batches e cfg (Suc n0) bs st1 = (err, st')" by simp
    note ih = Cons.IH [OF rest]
    note eff = process_batch_effect [OF Inr]
    have a: "map fst (in_memory st') = map fst (in_memory st)"
      using ih eff(1) by simp
    have b: "map_of (in_memory st') k = map_of (in_memory st) k"
      if h: "\<forall>j<length (b # bs). k \<in> set ((b # bs) ! j) \<longrightarrow>
            (\<forall>i<max_retries. attempt_fails (json_decoder e) (oracle_reply e (n0 + j) i))"
    proof -
      have "\<forall>j<length bs. k \<in> set (bs ! j) \<longrightarrow>
            (\<forall>i<max_retries. attempt_fails (json_decoder e) (oracle_reply e (Suc n0 + j) i))"
      proof (intro allI impI)
        fix j i assume "j < length bs" "k \<in> set (bs ! j)" "i < max_retries"
        with h [rule_format, of "Suc j" i]
        show "attempt_fails (json_decoder e) (oracle_reply e (Suc n0 + j) i)" by simp
      qed
      with ih have r: "map_of (in_memory st') k = map_of (in_memory st1) k" by blast
      have "map_of (in_memory st1) k = map_of (in_memory st) k"
      proof (cases "k \<in> set b")
        case True
        with h [rule_format, of 0] have "\<forall>i<max_retries. attempt_fails (json_decoder e) (oracle_reply e n0 i)"
          by simp
        from process_batch_skipped [OF this, of cfg b st] Inr have "st1 = st" by simp
        then show ?thesis by simp
      next
        case False
        then show ?thesis by (rule eff(2))
      qed
      with r show ?thesis by simp
    qed
    have c: "(disk st' = disk st \<and> in_memory st' = in_memory st)
        \<or> disk st' = (disk st)(output_path cfg \<mapsto> in_memory st')"
      using ih eff(3) by auto
    from a b c show ?thesis by blast
  qed
qed

lemma set_slice_to: "set (slice_to xs m) \<subseteq> set xs"
  by (auto simp: slice_to_def dest: in_set_takeD)

lemma distinct_slice_to: "distinct xs \<Longrightarrow> distinct (slice_to xs m)"
  by (simp add: slice_to_def)

lemma set_ordered_keys: "set (ordered_keys todo) = set todo"
  using mset_ordered_keys [of todo] by (metis set_mset_mset)

lemma distinct_ordered_keys: "distinct todo \<Longrightarrow> distinct (ordered_keys todo)"
  using mset_ordered_keys [of todo] by (metis mset_eq_imp_distinct_iff)

lemma planned_keys_props:
  "set (planned_keys data B limit) \<subseteq> set (todo_keys data)"
  "distinct (map fst data) \<Longrightarrow> distinct (planned_keys data B limit)"
  using set_slice_to [of "ordered_keys (todo_keys data)" "limit * B"]
  by (auto simp: planned_keys_def Let_def set_ordered_keys distinct_slice_to
      distinct_ordered_keys todo_keys_distinct)

lemma batches_of_nonempty: "batches_of keys B \<noteq> [] \<Longrightarrow> 1 \<le> B"
  by (auto simp: batches_of_def split: if_splits)

text \<open>
  Claim C3.  Take a run of \<open>process_atlas\<close> on a catalog with unique keys, and a batch
  of that run whose attempts all fail (a timeout, a subprocess error, a non-zero return
  code or a reply from which nothing can be read; at most \<open>max_retries = 3\<close> attempts
  are made, and what the oracle would answer to a later attempt changes nothing).  That
  turn of the loop leaves the state as it was: no sprite changes and nothing is saved.
  At the end of the run every sprite of the batch is as the run found it, still not
  enriched, in the catalog the next run loads, and the next run's planner puts it in a
  batch.
\<close>

theorem failed_batch_is_retried:
  assumes start: "load_for_run cfg fs = Some data"
    and keys: "distinct (map fst data)"
    and n: "n < length (batches_of (planned_keys data B limit) B)"
    and fails: "\<forall>i<max_retries. attempt_fails (json_decoder e) (oracle_reply e n i)"
    and k: "k \<in> set (batches_of (planned_keys data B limit) B ! n)"
    and run: "process_atlas e cfg B dry_run limit fs = (err, st')"
  shows "(\<forall>st. process_batch e cfg n (batches_of (planned_keys data B limit) B ! n) st = Inr st)
    \<and> max_retries = 3
    \<and> (\<forall>answers. (\<forall>i<3. answers i = oracle_reply e n i) \<longrightarrow>
          try_attempts (json_decoder e) answers 0 max_retries = Inr None)
    \<and> map_of (in_memory st') k = map_of data k
    \<and> (\<exists>data' info. load_for_run cfg (disk st') = Some data'
          \<and> map_of data' k = Some info \<and> map_of data k = Some info \<and> \<not> is_enriched info
          \<and> k \<in> set (todo_keys data')
          \<and> (\<exists>bs. plan_batches data' B 0 = Inr bs \<and> k \<in> set (concat bs)))"
proof -
  define batches where "batches = batches_of (planned_keys data B limit) B"
  define st0 where "st0 = \<lparr>in_memory = data, disk = fs, saves = 0\<rparr>"
  from n have "batches_of (planned_keys data B limit) B \<noteq> []" by auto
  then have B: "1 \<le> B" by (rule batches_of_nonempty)
  have cc: "concat batches = planned_keys data B limit"
    unfolding batches_def using B by (rule concat_batches_of)
  have dist: "distinct (concat batches)"
    unfolding cc using keys by (rule planned_keys_props(2))
  have skip: "\<forall>st. process_batch e cfg n (batches ! n) st = Inr st"
    using process_batch_skipped [OF fails] by simp
  have three: "\<forall>answers. (\<forall>i<3. answers i = oracle_reply e n i) \<longrightarrow>
          try_attempts (json_decoder e) answers 0 max_retries = Inr None"
  proof (intro allI impI)
    fix answers assume "\<forall>i<3. answers i = oracle_reply e n i"
    then have "\<forall>i<max_retries. answers (0 + i) = oracle_reply e n (0 + i)"
      by (simp add: max_retries_def)
    then have "try_attempts (json_decoder e) answers 0 max_retries
        = try_attempts (json_decoder e) (oracle_reply e n) 0 max_retries"
      by (rule try_attempts_cong)
    also from fails have "\<dots> = Inr None"
      by (intro try_attempts_fail) simp
    finally show "try_attempts (json_decoder e) answers 0 max_retries = Inr None" .
  qed
  \<comment> \<open>the key was still to enrich when the run started\<close>
  from k n have "k \<in> set (concat batches)"
    unfolding batches_def by (auto intro: nth_mem)
  then have "k \<in> set (todo_keys data)"
    unfolding cc using planned_keys_props(1) by blast
  then obtain info where info: "map_of data k = Some info" "\<not> is_enriched info"
    by (auto simp: todo_keys_set)
  \<comment> \<open>what the run leaves\<close>
  have inv: "map_of (in_memory st') k = map_of data k
      \<and> ((disk st' = fs \<and> in_memory st' = data) \<or> disk st' = fs(output_path cfg \<mapsto> in_memory st'))"
  proof (cases "todo_keys data = [] \<or> dry_run \<or> \<not> has_cli e")
    case True
    with run start B have "st' = st0"
      by (auto simp: process_atlas_def st0_def Let_def split: if_splits)
    then show ?thesis by (simp add: st0_def)
  next
    case False
    with run start B have loop: "process_batches e cfg 0 batches st0 = (err, st')"
      by (auto simp: process_atlas_def st0_def batches_def Let_def split: if_splits)
    have only: "\<forall>j<length batches. k \<in> set (batches ! j) \<longrightarrow>
            (\<forall>i<max_retries. attempt_fails (json_decoder e) (oracle_reply e (0 + j) i))"
    proof (intro allI impI)
      fix j i assume j: "j < length batches" "k \<in> set (batches ! j)" and i: "i < max_retries"
      from distinct_concat_unique_index [OF dist j(1) _ j(2), of n] n k
      have "j = n" by (simp add: batches_def)
      with fails i show "attempt_fails (json_decoder e) (oracle_reply e (0 + j) i)" by simp
    qed
    from process_batches_effect [OF loop, of k] only show ?thesis
      by (simp add: st0_def)
  qed
  \<comment> \<open>what the next run loads\<close>
  from start obtain idx where idx: "fs (index_path cfg) = Some idx"
    by (auto simp: load_for_run_def split: option.splits)
  have "\<exists>data'. load_for_run cfg (disk st') = Some data' \<and> map_of data' k = map_of data k"
  proof -
    from inv consider "disk st' = fs" "in_memory st' = data"
      | "disk st' = fs(output_path cfg \<mapsto> in_memory st')" by blast
    then show ?thesis
    proof cases
      case 1
      with start show ?thesis by simp
    next
      case 2
      then have "load_for_run cfg (disk st') = Some (in_memory st')"
        using idx by (simp add: load_for_run_def)
      with inv show ?thesis by simp
    qed
  qed
  then obtain data' where d': "load_for_run cfg (disk st') = Some data'"
    "map_of data' k = Some info" using info by auto
  with info have todo': "k \<in> set (todo_keys data')"
    by (auto simp: todo_keys_set)
  have "plan_batches data' B 0 = Inr (batches_of (ordered_keys (todo_keys data')) B)"
    using B by (rule plan_batches_unlimited)
  moreover have "k \<in> set (concat (batches_of (ordered_keys (todo_keys data')) B))"
    using todo' B by (simp add: concat_batches_of set_ordered_keys)
  ultimately have "\<exists>bs. plan_batches data' B 0 = Inr bs \<and> k \<in> set (concat bs)" by blast
  moreover have "max_retries = 3" by (simp add: max_retries_def)
  ultimately show ?thesis
    using skip three inv d' info todo' unfolding batches_def by blast
qed

theorem failed_batch_is_retried_witness:
  "load_for_run example_config example_files = Some example_catalog
   \<and> distinct (map fst example_catalog)
   \<and> 1 < length (batches_of (planned_keys example_catalog 2 0) 2)
   \<and> attempt_fails json_loads (oracle_reply example_env 1 0)
   \<and> attempt_fails json_loads (oracle_reply example_env 1 1)
   \<and> attempt_fails json_loads (oracle_reply example_env 1 2)
   \<and> ''dungeon/doors/c.png'' \<in> set (batches_of (planned_keys example_catalog 2 0) 2 ! 1)
   \<and> saves (snd (process_atlas example_env example_config 2 False 0 example_files)) = 1
   \<and> map_of (in_memory (snd (process_atlas example_env example_config 2 False 0 example_files)))
        ''dungeon/doors/c.png'' = Some blank_entity"
proof -
  have start: "load_for_run example_config example_files = Some example_catalog" by code_simp
  have keys: "distinct (map fst example_catalog)" by code_simp
  have n: "1 < length (batches_of (planned_keys example_catalog 2 0) 2)" by code_simp
  have f0: "attempt_fails json_loads (oracle_reply example_env 1 0)" by code_simp
  have f1: "attempt_fails json_loads (oracle_reply example_env 1 1)" by code_simp
  have f2: "attempt_fails json_loads (oracle_reply example_env 1 2)" by code_simp
  have fails: "\<forall>i<max_retries. attempt_fails (json_decoder example_env) (oracle_reply example_env 1 i)"
  proof (intro allI impI)
    fix i :: nat assume "i < max_retries"
    then have "i = 0 \<or> i = 1 \<or> i = 2" by (auto simp: max_retries_def)
    moreover have "json_decoder example_env = json_loads" by (simp add: example_env_def)
    ultimately show "attempt_fails (json_decoder example_env) (oracle_reply example_env 1 i)"
      using f0 f1 f2 by auto
  qed
  have k: "''dungeon/doors/c.png'' \<in> set (batches_of (planned_keys example_catalog 2 0) 2 ! 1)"
    by code_simp
  have run: "process_atlas example_env example_config 2 False 0 example_files
      = (fst (process_atlas example_env example_config 2 False 0 example_files),
         snd (process_atlas example_env example_config 2 False 0 example_files))"
    by simp
  have sv: "saves (snd (process_atlas example_env example_config 2 False 0 example_files)) = 1"
    by code_simp
  have "map_of example_catalog ''dungeon/doors/c.png'' = Some blank_entity" by code_simp
  with failed_batch_is_retried [OF start keys n fails k run]
  have "map_of (in_memory (snd (process_atlas example_env example_config 2 False 0 example_files)))
        ''dungeon/doors/c.png'' = Some blank_entity"
    by simp
  with start keys n f0 f1 f2 k sv show ?thesis by simp
qed

text \<open>
  Claim C4 fails on the code where the entry repeats the tile type among its tags:
  \<open>tags.remove(tt)\<close> takes out the first occurrence only.  An entry with tags
  \<open>["door", "wood", "door"]\<close> and tile type \<open>door\<close> leaves a sprite whose tags still
  hold \<open>door\<close>.
\<close>

theorem tile_type_left_in_tags:
  "apply_enrichment
     [(''description'', JStr ''A door''),
      (''tags'', JArr [JStr ''door'', JStr ''wood'', JStr ''door'']),
      (''tile_type'', JStr ''door'')] blank_entity
   = \<lparr>description = Some (JStr ''A door''),
      tags = Some [JStr ''wood'', JStr ''door''],
      tile_type = Some (JStr ''door'')\<rparr>"
  by code_simp

text \<open>
  Claim C5.  The merge loop pairs the keys of the batch with the entries by position.
  With unique keys: the sprite at a position that has an entry becomes what that entry
  makes of it (itself, when the entry is not a dict); a sprite at a position past the
  end of the entries, and every sprite outside the batch, stays as it was; no sprite is
  added or removed; entries past the number of keys change nothing.
\<close>

theorem merge_by_position:
  assumes "distinct keys"
  shows "(\<forall>i<length keys. i < length entries \<longrightarrow>
            map_of (fst (merge_enrichments keys entries sp 0)) (keys ! i)
              = map_option (entry_effect (entries ! i)) (map_of sp (keys ! i)))
    \<and> (\<forall>i<length keys. length entries \<le> i \<longrightarrow>
            map_of (fst (merge_enrichments keys entries sp 0)) (keys ! i) = map_of sp (keys ! i))
    \<and> (\<forall>k. k \<notin> set keys \<longrightarrow> map_of (fst (merge_enrichments keys entries sp 0)) k = map_of sp k)
    \<and> map fst (fst (merge_enrichments keys entries sp 0)) = map fst sp
    \<and> (length keys \<le> length entries \<longrightarrow>
          merge_enrichments keys (entries @ extra) sp 0 = merge_enrichments keys entries sp 0)"
proof -
  have past: "map_of (fst (merge_enrichments keys entries sp 0)) (keys ! i) = map_of sp (keys ! i)"
    if "i < length keys" "length entries \<le> i" for i
  proof -
    have "keys ! i \<notin> set (take (length entries) keys)"
    proof
      assume "keys ! i \<in> set (take (length entries) keys)"
      then obtain j where j: "j < length (take (length entries) keys)"
        "take (length entries) keys ! j = keys ! i"
        by (auto simp: in_set_conv_nth)
      then have "j < length keys" "j < length entries" "keys ! j = keys ! i" by auto
      with assms that have "j = i" by (simp add: nth_eq_iff_index_eq)
      with that \<open>j < length entries\<close> show False by simp
    qed
    then show ?thesis by (rule merge_frame)
  qed
  have out: "map_of (fst (merge_enrichments keys entries sp 0)) k = map_of sp k"
    if "k \<notin> set keys" for k
    using that by (intro merge_frame) (auto dest: in_set_takeD)
  from assms past out show ?thesis
    by (auto simp: merge_positional merge_keys merge_excess)
qed

theorem merge_by_position_witness:
  "distinct [''dungeon/doors/a.png'', ''dungeon/doors/b.png'', ''dungeon/doors/c.png'']
   \<and> map_of (fst (merge_enrichments
                 [''dungeon/doors/a.png'', ''dungeon/doors/b.png'', ''dungeon/doors/c.png'']
                 [JObj [(''description'', JStr ''A wooden door'')], JInt 7] example_catalog 0))
        ''dungeon/doors/c.png'' = Some blank_entity
   \<and> map_of (fst (merge_enrichments
                 [''dungeon/doors/a.png'', ''dungeon/doors/b.png'', ''dungeon/doors/c.png'']
                 [JObj [(''description'', JStr ''A wooden door'')], JInt 7] example_catalog 0))
        ''dungeon/doors/a.png''
      = Some \<lparr>description = Some (JStr ''A wooden door''), tags = None, tile_type = None\<rparr>"
proof -
  define ks where "ks = [''dungeon/doors/a.png'', ''dungeon/doors/b.png'', ''dungeon/doors/c.png'']"
  define es where "es = [JObj [(''description'', JStr ''A wooden door'')], JInt 7]"
  have d: "distinct ks" by (simp add: ks_def)
  note m = merge_by_position [OF d, of es example_catalog]
  have c: "map_of example_catalog ''dungeon/doors/c.png'' = Some blank_entity" by code_simp
  have a: "map_option (entry_effect (JObj [(''description'', JStr ''A wooden door'')]))
             (map_of example_catalog ''dungeon/doors/a.png'')
      = Some \<lparr>description = Some (JStr ''A wooden door''), tags = None, tile_type = None\<rparr>"
    by code_simp
  have i2: "2 < length ks" "length es \<le> 2" "ks ! 2 = ''dungeon/doors/c.png''"
    by (simp_all add: ks_def es_def)
  have i0: "0 < length ks" "0 < length es" "ks ! 0 = ''dungeon/doors/a.png''"
    "es ! 0 = JObj [(''description'', JStr ''A wooden door'')]"
    by (simp_all add: ks_def es_def)
  from m i2(1,2) have "map_of (fst (merge_enrichments ks es example_catalog 0)) (ks ! 2)
      = map_of example_catalog (ks ! 2)"
    by blast
  with c i2(3) have r1: "map_of (fst (merge_enrichments ks es example_catalog 0))
      ''dungeon/doors/c.png'' = Some blank_entity" by simp
  from m i0(1,2) have "map_of (fst (merge_enrichments ks es example_catalog 0)) (ks ! 0)
      = map_option (entry_effect (es ! 0)) (map_of example_catalog (ks ! 0))"
    by blast
  with a i0(3,4) have r2: "map_of (fst (merge_enrichments ks es example_catalog 0))
      ''dungeon/doors/a.png''
      = Some \<lparr>description = Some (JStr ''A wooden door''), tags = None, tile_type = None\<rparr>"
    by simp
  from d r1 r2 show ?thesis unfolding ks_def es_def by blast
qed

section \<open>Properties of the consistency checks\<close>

lemma dict_set_same: "map_of d k = Some v \<Longrightarrow> dict_set d k v = d"
  by (induction d k v rule: dict_set.induct) (auto split: if_splits)

lemma dir_rule_loop_report:
  "\<exists>issues'. dir_rule_loop False key ps (info, issues, fixes) = (info, issues', fixes)"
  by (induction ps arbitrary: issues) (auto simp: Let_def)

lemma rule_list_report:
  assumes "rule \<in> set (rule_list dcss False)"
  shows "reports_only rule"
proof -
  have a: "reports_only (rule_tile_type_in_tags False)"
    by (auto simp: reports_only_def rule_tile_type_in_tags_def Let_def split: if_splits)
  have b: "reports_only (rule_tag_spelling False)"
    by (auto simp: reports_only_def rule_tag_spelling_def Let_def split: if_splits)
  have c: "reports_only (rule_description_spelling False)"
    by (auto simp: reports_only_def rule_description_spelling_def Let_def split: if_splits json.splits)
  have d: "reports_only (rule_strip_tags kind names cat False)" for kind names cat
    by (auto simp: reports_only_def rule_strip_tags_def Let_def split: if_splits)
  have e: "reports_only (rule_altar_alignment False)"
    by (auto simp: reports_only_def rule_altar_alignment_def Let_def split: if_splits)
  have f: "reports_only (rule_directory_tags False)"
    unfolding reports_only_def rule_directory_tags_def
    using dir_rule_loop_report by (metis Inr_inject prod.inject)
  have g: "reports_only (rule_tag_count False)"
    by (auto simp: reports_only_def rule_tag_count_def Let_def split: if_splits)
  have h: "reports_only (rule_description_length False)"
    by (auto simp: reports_only_def rule_description_length_def Let_def split: if_splits json.splits)
  from assms a b c d e f g h show ?thesis
    by (auto simp: rule_list_def split: if_splits)
qed

lemma for_enriched_report:
  assumes "reports_only rule" and "for_enriched rule keys acc = (err, acc')"
  shows "c_sprites acc' = c_sprites acc \<and> c_fixes acc' = c_fixes acc"
  using assms(2)
proof (induction keys arbitrary: acc)
  case Nil
  then show ?case by simp
next
  case (Cons key keys)
  show ?case
  proof (cases "map_of (c_sprites acc) key")
    case None
    with Cons show ?thesis by simp
  next
    case (Some info)
    show ?thesis
    proof (cases "rule key info")
      case (Inl e)
      with Some Cons.prems show ?thesis by simp
    next
      case (Inr res)
      obtain info' issues n where res: "res = (info', issues, n)" by (cases res) auto
      with assms(1) Inr have same: "info' = info" "n = 0" by (auto simp: reports_only_def)
      with Some have ds: "dict_set (c_sprites acc) key info' = c_sprites acc"
        by (simp add: dict_set_same)
      from Cons.prems Some Inr res
      have "for_enriched rule keys
              \<lparr>c_sprites = dict_set (c_sprites acc) key info',
               c_issues = c_issues acc @ issues, c_fixes = c_fixes acc + n\<rparr> = (err, acc')"
        by simp
      from Cons.IH [OF this] ds same show ?thesis by simp
    qed
  qed
qed

lemma run_rules_report:
  assumes "\<forall>rule\<in>set rules. reports_only rule" and "run_rules rules keys acc = (err, acc')"
  shows "c_sprites acc' = c_sprites acc \<and> c_fixes acc' = c_fixes acc"
  using assms
proof (induction rules arbitrary: acc)
  case Nil
  then show ?case by simp
next
  case (Cons rule rules)
  obtain e1 acc1 where fe: "for_enriched rule keys acc = (e1, acc1)"
    by (cases "for_enriched rule keys acc") auto
  from Cons.prems(1) have ro: "reports_only rule" by simp
  note one = for_enriched_report [OF ro fe]
  show ?case
  proof (cases e1)
    case None
    with Cons.prems(2) fe have "run_rules rules keys acc1 = (err, acc')" by simp
    with Cons.IH [of acc1] Cons.prems(1) one show ?thesis by simp
  next
    case (Some e)
    with Cons.prems(2) fe have "acc' = acc1" by simp
    with one show ?thesis by simp
  qed
qed

lemma check_atlas_report:
  "r_disk (check_atlas cfg False fs backups) = fs
   \<and> r_backups (check_atlas cfg False fs backups) = backups
   \<and> r_writes (check_atlas cfg False fs backups) = 0
   \<and> r_fixes (check_atlas cfg False fs backups) = 0
   \<and> r_memory (check_atlas cfg False fs backups) = fs (output_path cfg)"
proof (cases "fs (output_path cfg)")
  case None
  then show ?thesis by (simp add: check_atlas_def)
next
  case (Some data)
  define enriched where "enriched = filter (\<lambda>key. case map_of data key of
                                           None \<Rightarrow> False
                                         | Some info \<Rightarrow> is_enriched info) (map fst data)"
  obtain err acc where rr: "run_rules (rule_list (dcss_checks cfg) False) enriched
      \<lparr>c_sprites = data, c_issues = [], c_fixes = 0\<rparr> = (err, acc)"
    by (cases "run_rules (rule_list (dcss_checks cfg) False) enriched
      \<lparr>c_sprites = data, c_issues = [], c_fixes = 0\<rparr>") auto
  have "\<forall>rule\<in>set (rule_list (dcss_checks cfg) False). reports_only rule"
    using rule_list_report by blast
  from run_rules_report [OF this rr] have "c_sprites acc = data" "c_fixes acc = 0" by simp_all
  with Some rr show ?thesis
    by (cases err) (simp_all add: check_atlas_def Let_def enriched_def [symmetric])
qed

lemma check_atlas_writes:
  "r_writes (check_atlas cfg fix fs backups) \<le> 1
   \<and> (r_writes (check_atlas cfg fix fs backups) = 0 \<longrightarrow> r_disk (check_atlas cfg fix fs backups) = fs)
   \<and> (r_writes (check_atlas cfg fix fs backups) = 1 \<longleftrightarrow>
        fix \<and> r_fixes (check_atlas cfg fix fs backups) \<noteq> 0
        \<and> r_error (check_atlas cfg fix fs backups) = None)
   \<and> (r_writes (check_atlas cfg fix fs backups) = 1 \<longrightarrow>
        (\<exists>final. r_memory (check_atlas cfg fix fs backups) = Some final
           \<and> r_disk (check_atlas cfg fix fs backups) = fs(output_path cfg \<mapsto> final)))
   \<and> (fix \<longrightarrow> r_backups (check_atlas cfg fix fs backups)
         = backups @ (case fs (output_path cfg) of None \<Rightarrow> [] | Some data \<Rightarrow> [data]))"
  by (auto simp: check_atlas_def Let_def split: option.splits prod.splits)

text \<open>
  Claim C6 fails on the code.  The tile type is stripped from the tags before the tags
  are respelled, so a sprite of type \<open>armour\<close> with the tag \<open>armor\<close> gets one fix in
  the first pass (the tag becomes \<open>armour\<close>) and one more in the second (the tag, now
  equal to the type, is removed).
\<close>

theorem second_fix_pass_still_fixes:
  "r_fixes (check_atlas kenney_config True armour_files []) = 1
   \<and> r_memory (check_atlas kenney_config True armour_files [])
       = Some [(''item/plate_armour.png'',
                \<lparr>description = Some (JStr ''A suit of polished steel plate armour on a stand''),
                 tags = Some [JStr ''armour'', JStr ''metal'', JStr ''equipment''],
                 tile_type = Some (JStr ''armour'')\<rparr>)]
   \<and> r_fixes (check_atlas kenney_config True
                (r_disk (check_atlas kenney_config True armour_files [])) []) = 1
   \<and> r_memory (check_atlas kenney_config True
                (r_disk (check_atlas kenney_config True armour_files [])) [])
       = Some [(''item/plate_armour.png'',
                \<lparr>description = Some (JStr ''A suit of polished steel plate armour on a stand''),
                 tags = Some [JStr ''metal'', JStr ''equipment''],
                 tile_type = Some (JStr ''armour'')\<rparr>)]"
  by code_simp

text \<open>
  The same claim fails in the DCSS rules too, and there no number of passes helps: for a
  creature under \<open>player/\<close> every pass removes the tag \<open>player\<close> and adds it again,
  two fixes each time, and leaves the catalog as the pass before left it.
\<close>

lemma player_tag_removed_and_added:
  "r_fixes (check_atlas utumno_config True player_files []) = 2
   \<and> r_fixes (check_atlas utumno_config True
                (r_disk (check_atlas utumno_config True player_files [])) []) = 2
   \<and> r_memory (check_atlas utumno_config True
                (r_disk (check_atlas utumno_config True player_files [])) [])
       = r_memory (check_atlas utumno_config True player_files [])"
  by code_simp

text \<open>
  Claim C7.  In report mode \<open>check_atlas\<close> leaves the files and the backups as they
  are, writes nothing, and ends with the catalog in memory as it was loaded.  In any
  mode it writes the catalog file at most once; it writes exactly when it is in fix
  mode, has counted a fix and was not ended by an exception, and what it writes is the
  catalog as the rules left it.  In fix mode the backup is a copy of the file as it was
  before the run.
\<close>

theorem check_atlas_persistence:
  assumes "r = check_atlas cfg fixing fs backups"
  shows "(\<not> fixing \<longrightarrow> r_disk r = fs \<and> r_backups r = backups \<and> r_writes r = 0
            \<and> r_fixes r = 0 \<and> r_memory r = fs (output_path cfg))
    \<and> r_writes r \<le> 1
    \<and> (r_writes r = 0 \<longrightarrow> r_disk r = fs)
    \<and> (r_writes r = 1 \<longleftrightarrow> fixing \<and> r_fixes r \<noteq> 0 \<and> r_error r = None)
    \<and> (r_writes r = 1 \<longrightarrow>
          (\<exists>final. r_memory r = Some final \<and> r_disk r = fs(output_path cfg \<mapsto> final)))
    \<and> (fixing \<longrightarrow> r_backups r
          = backups @ (case fs (output_path cfg) of None \<Rightarrow> [] | Some data \<Rightarrow> [data]))"
  unfolding assms
  using check_atlas_report [of cfg fs backups] check_atlas_writes [of cfg fixing fs backups]
  by (cases fixing) simp_all

theorem check_atlas_persistence_witness:
  "r_writes (check_atlas kenney_config True armour_files []) = 1
   \<and> r_backups (check_atlas kenney_config True armour_files []) = [armour_catalog]
   \<and> r_fixes (check_atlas kenney_config True armour_files []) = 1
   \<and> r_error (check_atlas kenney_config True armour_files []) = None
   \<and> r_disk (check_atlas kenney_config False armour_files []) = armour_files
   \<and> r_memory (check_atlas kenney_config False armour_files []) = Some armour_catalog
   \<and> r_writes (check_atlas kenney_config False armour_files []) = 0"
proof -
  have f: "r_fixes (check_atlas kenney_config True armour_files []) = 1"
    and e: "r_error (check_atlas kenney_config True armour_files []) = None"
    by code_simp+
  have o: "armour_files (output_path kenney_config) = Some armour_catalog"
    by code_simp
  from check_atlas_persistence [where cfg = kenney_config and fixing = True and fs = armour_files and backups = "[]", OF refl] f e o
  have t: "r_writes (check_atlas kenney_config True armour_files []) = 1"
    "r_backups (check_atlas kenney_config True armour_files []) = [armour_catalog]"
    by simp_all
  from check_atlas_persistence [where cfg = kenney_config and fixing = False and fs = armour_files and backups = "[]", OF refl] o
  have r: "r_disk (check_atlas kenney_config False armour_files []) = armour_files"
    "r_memory (check_atlas kenney_config False armour_files []) = Some armour_catalog"
    "r_writes (check_atlas kenney_config False armour_files []) = 0"
    by simp_all
  from f e t r show ?thesis by simp
qed

section \<open>Properties of the verify pass\<close>

lemma apply_fix_skipped:
  assumes "\<forall>kvs. entry = JObj kvs \<longrightarrow> map_of kvs ''index'' = None"
  shows "apply_fix keys entry st = (None, st)"
  using assms by (cases entry) (simp_all add: apply_fix_def)

lemma apply_fix_out_of_range:
  assumes "map_of kvs ''index'' = Some (JInt i)" and "i < 1 \<or> int (length keys) < i"
  shows "apply_fix keys (JObj kvs) st = (None, st)"
  using assms by (auto simp: apply_fix_def index_minus_one_def)

lemma apply_fix_frame:
  assumes "map_of kvs ''index'' = Some (JInt i)" and "1 \<le> i" and "i \<le> int (length keys)"
    and "apply_fix keys (JObj kvs) st = (err, st')"
    and "k \<noteq> keys ! nat (i - 1)"
  shows "map_of (v_sprites st') k = map_of (v_sprites st) k"
proof (cases "map_of (v_sprites st) (keys ! nat (i - 1))")
  case None
  with assms show ?thesis
    by (auto simp: apply_fix_def index_minus_one_def)
next
  case (Some old)
  with assms(1-4) have "v_sprites st'
      = update_sprite (keys ! nat (i - 1)) (\<lambda>_. apply_fix_fields kvs old) (v_sprites st)"
    by (auto simp: apply_fix_def index_minus_one_def Let_def split: if_splits prod.splits)
  with assms(5) show ?thesis
    by (simp add: map_of_update_sprite)
qed

lemma py_eq_refl: "py_eq a a"
  by (simp add: py_eq_def)

lemma changed_fields_real:
  assumes "description old \<noteq> None" and "tags old \<noteq> None" and "tile_type old \<noteq> None"
    and "changed_fields old new \<noteq> []"
  shows "new \<noteq> old"
proof
  assume "new = old"
  with assms show False
    by (auto simp: changed_fields_def old_description_def old_tags_def old_tile_type_def
        opt_get_def py_eq_refl split: if_splits)
qed

lemma apply_fix_counts_change:
  assumes "map_of kvs ''index'' = Some (JInt i)" and "1 \<le> i" and "i \<le> int (length keys)"
    and "map_of (v_sprites st) (keys ! nat (i - 1)) = Some old"
    and "description old \<noteq> None" and "tags old \<noteq> None" and "tile_type old \<noteq> None"
    and "apply_fix keys (JObj kvs) st = (err, st')"
    and "v_applied st' \<noteq> v_applied st"
  shows "map_of (v_sprites st') (keys ! nat (i - 1)) \<noteq> Some old"
proof -
  let ?new = "apply_fix_fields kvs old"
  from assms(1-4,8) have sp: "v_sprites st'
      = update_sprite (keys ! nat (i - 1)) (\<lambda>_. ?new) (v_sprites st)"
    by (auto simp: apply_fix_def index_minus_one_def Let_def split: if_splits prod.splits)
  from assms(1-4,8,9) have "changed_fields old ?new \<noteq> []"
    by (auto simp: apply_fix_def index_minus_one_def Let_def split: if_splits prod.splits)
  with assms(5-7) have "?new \<noteq> old" by (rule changed_fields_real)
  with sp assms(4) show ?thesis
    by (simp add: map_of_update_sprite)
qed

text \<open>
  Claim C10 fails on the code in its last part.  A sprite can hold a description and a
  tile type but no \<open>tags\<close> key (the merge of an entry without tags leaves it so, and
  the verify pass selects it).  For such a sprite \<open>old["tags"]\<close> is \<open>[]\<close> while
  \<open>sprites[key].get("tags")\<close> is \<open>None\<close>, so a fix that changes nothing is found to
  have changed the tags: it is counted and a \<open>FIX\<close> entry is logged, and the log line
  for the value after the fix then raises \<open>KeyError\<close>.
\<close>

theorem unchanged_sprite_counted_as_fixed:
  "apply_enrichment
     [(''description'', JStr ''A grey stone wall with mossy cracks''), (''tile_type'', JStr ''wall'')]
     blank_entity = untagged_wall
   \<and> apply_fix [''dungeon/walls/w.png'']
       (JObj [(''index'', JInt 1), (''tile_type'', JStr ''wall'')])
       \<lparr>v_sprites = [(''dungeon/walls/w.png'', untagged_wall)], v_applied = 0, v_log = []\<rparr>
     = (Some KeyError,
        \<lparr>v_sprites = [(''dungeon/walls/w.png'', untagged_wall)], v_applied = 1,
         v_log = [Log_fix ''dungeon/walls/w.png'', Log_field ''tags'', Log_before (JArr [])]\<rparr>)"
  by code_simp

end
